theory Spec2Isabelle
  imports Complex_Main "HOL-Library.Sublist" "HOL-Library.Log_Nat"
begin

section \<open>Strings\<close>

text \<open>
  JavaScript strings are modelled as \<^typ>\<open>string\<close>, one \<^typ>\<open>char\<close> per code unit,
  read as a Latin-1 code point. \<open>String.prototype.toLowerCase\<close> maps each such code
  unit to one code unit: \<open>A\<close>..\<open>Z\<close> and the accented capitals \<open>0xC0\<close>..\<open>0xDE\<close> (without
  the multiplication sign \<open>0xD7\<close>) move up by \<open>0x20\<close>, every other code unit stays.
\<close>

definition lowerChar :: "char \<Rightarrow> char" where
  "lowerChar c =
     (let n = of_char c :: nat in
      if (65 \<le> n \<and> n \<le> 90) \<or> (192 \<le> n \<and> n \<le> 222 \<and> n \<noteq> 215)
      then char_of (n + 32) else c)"

definition toLowerCase :: "string \<Rightarrow> string" where
  "toLowerCase s = map lowerChar s"

text \<open>\<open>text.startsWith(q)\<close> and \<open>text.includes(q)\<close> (named \<open>includesSub\<close> here): the text first, the needle second.\<close>

fun startsWith :: "'a list \<Rightarrow> 'a list \<Rightarrow> bool" where
  "startsWith t [] = True"
| "startsWith [] (q # qs) = False"
| "startsWith (c # t) (q # qs) = (c = q \<and> startsWith t qs)"

fun includesSub :: "'a list \<Rightarrow> 'a list \<Rightarrow> bool" where
  "includesSub [] q = (q = [])"
| "includesSub (c # t) q = (startsWith (c # t) q \<or> includesSub t q)"

text \<open>Template literals print a number in decimal.\<close>

fun showNat :: "nat \<Rightarrow> string" where
  "showNat n =
     (if n < 10 then [char_of (48 + n)]
      else showNat (n div 10) @ [char_of (48 + n mod 10)])"

declare showNat.simps [simp del]

section \<open>Numbers\<close>

text \<open>
  A JavaScript number is an IEEE-754 binary64 value. A finite one is modelled by the
  rational it denotes; each arithmetic operation computes the exact result and rounds
  it to the nearest value with a 53-bit significand, ties to the even significand.
  The exponent range is not bounded: the operands below are array lengths (below
  \<open>2^32\<close>) and the constants of the source, so neither overflow nor a subnormal
  result can occur.
\<close>

definition pow2 :: "int \<Rightarrow> rat" where
  "pow2 e = (if 0 \<le> e then 2 ^ nat e else 1 / 2 ^ nat (- e))"

text \<open>The binade of a positive rational: the \<open>e\<close> with \<open>2^e \<le> x < 2^(e+1)\<close>.\<close>

definition binade :: "rat \<Rightarrow> int" where
  "binade x =
     (if 1 \<le> x then bitlen \<lfloor>x\<rfloor> - 1
      else (let k = bitlen \<lfloor>1 / x\<rfloor> - 1 in if x * pow2 k = 1 then - k else - k - 1))"

definition roundHalfEven :: "rat \<Rightarrow> int" where
  "roundHalfEven m =
     (let f = \<lfloor>m\<rfloor>; d = m - of_int f in
      if d < 1 / 2 then f
      else if 1 / 2 < d then f + 1
      else if even f then f else f + 1)"

definition fl :: "rat \<Rightarrow> rat" where
  "fl x =
     (if x = 0 then 0
      else if 0 < x then
        (let e = binade x in of_int (roundHalfEven (x * pow2 (52 - e))) * pow2 (e - 52))
      else
        (let e = binade (- x) in - (of_int (roundHalfEven (- x * pow2 (52 - e))) * pow2 (e - 52))))"

definition fadd :: "rat \<Rightarrow> rat \<Rightarrow> rat" where
  "fadd x y = fl (x + y)"

definition fmul :: "rat \<Rightarrow> rat \<Rightarrow> rat" where
  "fmul x y = fl (x * y)"

definition fdiv :: "rat \<Rightarrow> rat \<Rightarrow> rat" where
  "fdiv x y = fl (x / y)"

text \<open>
  A division can also give \<open>Infinity\<close> or \<open>NaN\<close>. The only division of this kind in the
  source divides one count by another, so the operands are natural numbers.
\<close>

datatype number = Num rat | PosInfinity | NaN

definition divideCounts :: "nat \<Rightarrow> nat \<Rightarrow> number" where
  "divideCounts c d =
     (if d = 0 then (if c = 0 then NaN else PosInfinity)
      else Num (fdiv (of_nat c) (of_nat d)))"

text \<open>\<open>x >= t\<close> for a finite \<open>t\<close>: false when \<open>x\<close> is \<open>NaN\<close>.\<close>

fun geq :: "number \<Rightarrow> rat \<Rightarrow> bool" where
  "geq (Num r) t = (t \<le> r)"
| "geq PosInfinity t = True"
| "geq NaN t = False"

section \<open>News items and the classifier (NewsModule)\<close>

datatype AlertLevel = NoLevel | Low | Medium | High | Critical

text \<open>
  \<open>ALERT_KEYWORDS\<close>, the table of alert keywords by level that the news types declare.
\<close>

fun ALERT_KEYWORDS :: "AlertLevel \<Rightarrow> string list" where
  "ALERT_KEYWORDS Critical =
     [''war'', ''attack'', ''terror'', ''crisis'', ''emergency'', ''disaster'',
      ''explosion'', ''shooting'', ''hostage'', ''invasion'', ''nuclear'',
      ''biological'', ''chemical'', ''pandemic'', ''epidemic'']"
| "ALERT_KEYWORDS High =
     [''conflict'', ''violence'', ''protest'', ''riot'', ''strike'', ''sanction'',
      ''embargo'', ''default'', ''bankruptcy'', ''crash'', ''collapse'',
      ''hack'', ''breach'', ''leak'', ''outage'', ''blackout'']"
| "ALERT_KEYWORDS Medium =
     [''warning'', ''alert'', ''danger'', ''threat'', ''risk'', ''concern'',
      ''investigation'', ''inquiry'', ''hearing'', ''lawsuit'', ''fine'',
      ''suspension'', ''delay'', ''cancellation'', ''recall'']"
| "ALERT_KEYWORDS Low =
     [''issue'', ''problem'', ''challenge'', ''difficulty'', ''setback'',
      ''decline'', ''drop'', ''fall'', ''slowdown'', ''weakness'',
      ''uncertainty'', ''volatility'', ''fluctuation'']"
| "ALERT_KEYWORDS NoLevel = []"

text \<open>
  An item as the RSS parser delivers it (\<open>item: any\<close>): every field may be missing.
  \<open>x || d\<close> takes \<open>d\<close> when \<open>x\<close> is undefined or the empty string.
\<close>

record RssItem =
  rss_title :: "string option"
  contentSnippet :: "string option"
  rss_content :: "string option"

fun orElse :: "string option \<Rightarrow> string \<Rightarrow> string" where
  "orElse None d = d"
| "orElse (Some s) d = (if s = [] then d else s)"

text \<open>The loop \<open>for (const keyword of ks) if (text.includes(keyword)) return ...\<close>.\<close>

fun anyKeyword :: "string \<Rightarrow> string list \<Rightarrow> bool" where
  "anyKeyword text [] = False"
| "anyKeyword text (k # ks) = (if includesSub text k then True else anyKeyword text ks)"

definition highAlertKeywords :: "string list" where
  "highAlertKeywords = [''crisis'', ''attack'', ''emergency'', ''disaster'', ''war'']"

definition mediumAlertKeywords :: "string list" where
  "mediumAlertKeywords = [''warning'', ''alert'', ''danger'', ''threat'']"

definition lowAlertKeywords :: "string list" where
  "lowAlertKeywords = [''concern'', ''issue'', ''problem'', ''challenge'']"

definition alertText :: "RssItem \<Rightarrow> string" where
  "alertText item =
     toLowerCase (orElse (rss_title item) [] @ '' '' @ orElse (contentSnippet item) [])"

definition detectAlertLevel :: "RssItem \<Rightarrow> AlertLevel" where
  "detectAlertLevel item =
     (let text = alertText item in
      if anyKeyword text highAlertKeywords then High
      else if anyKeyword text mediumAlertKeywords then Medium
      else if anyKeyword text lowAlertKeywords then Low
      else NoLevel)"

text \<open>
  The title and the description that \<open>fetchFromRSS\<close> gives the news item it builds from
  an RSS item, next to \<open>alertLevel: this.detectAlertLevel(item)\<close>.
\<close>

definition newsTitle :: "RssItem \<Rightarrow> string" where
  "newsTitle item = orElse (rss_title item) ''No title''"

definition newsDescription :: "RssItem \<Rightarrow> string" where
  "newsDescription item =
     orElse (contentSnippet item) (orElse (rss_content item) ''No description'')"

text \<open>
  A news item. Its \<open>keywords\<close> field holds an array, a mutable object: the type
  parameter is what stands for it, a reference into a store of arrays where the sharing
  matters, and anything at all for the code that never looks at the keywords.
\<close>

record 'k NewsItem =
  news_id :: string
  title :: string
  description :: string
  content :: "string option"
  url :: string
  source :: string
  category :: string
  publishedAt :: nat
  region :: "string option"
  news_keywords :: 'k
  alertLevel :: AlertLevel

text \<open>
  The store of arrays: a reference is an index into it, below its length, and a new
  array is appended to it.
\<close>

type_synonym store = "string list list"

definition push :: "store \<Rightarrow> nat \<Rightarrow> string \<Rightarrow> store" where
  "push st a v = st[a := st ! a @ [v]]"

text \<open>\<open>[...new Set(xs)]\<close>: the first occurrence of each element, in order.\<close>

fun uniq :: "'a list \<Rightarrow> 'a list \<Rightarrow> 'a list" where
  "uniq seen [] = []"
| "uniq seen (x # xs) = (if x \<in> set seen then uniq seen xs else x # uniq (seen @ [x]) xs)"

text \<open>\<open>\s\<close> on Latin-1 code units: tab to carriage return, space, no-break space.\<close>

definition isSpace :: "char \<Rightarrow> bool" where
  "isSpace c = (let n = of_char c :: nat in (9 \<le> n \<and> n \<le> 13) \<or> n = 32 \<or> n = 160)"

text \<open>\<open>replace(/\s+/g, ' ')\<close>: every maximal run of white space becomes one space.\<close>

fun collapseFrom :: "bool \<Rightarrow> string \<Rightarrow> string" where
  "collapseFrom inRun [] = []"
| "collapseFrom inRun (c # cs) =
     (if isSpace c then (if inRun then collapseFrom True cs else CHR '' '' # collapseFrom True cs)
      else c # collapseFrom False cs)"

definition collapseSpaces :: "string \<Rightarrow> string" where
  "collapseSpaces s = collapseFrom False s"

definition trim :: "string \<Rightarrow> string" where
  "trim s = rev (dropWhile isSpace (rev (dropWhile isSpace s)))"

definition cleanText :: "string \<Rightarrow> string" where
  "cleanText text = trim (filter (\<lambda>c. (of_char c :: nat) \<le> 127) (collapseSpaces text))"

text \<open>
  \<open>enhanceKeywords\<close> binds \<open>existingKeywords\<close> to the item's own array and pushes onto
  it; the array it returns is a new one.
\<close>

definition enhanceKeywords :: "store \<Rightarrow> nat NewsItem \<Rightarrow> nat \<times> store" where
  "enhanceKeywords st item =
     (let existingKeywords = news_keywords item;
          st1 = (if category item \<notin> set (st ! existingKeywords)
                 then push st existingKeywords (category item) else st);
          st2 = (case region item of
                   None \<Rightarrow> st1
                 | Some r \<Rightarrow>
                     if r \<noteq> [] \<and> r \<notin> set (st1 ! existingKeywords)
                     then push st1 existingKeywords r else st1)
      in (length st2, st2 @ [uniq [] (st2 ! existingKeywords)]))"

text \<open>\<open>items.map(item => ({...item, title: ..., description: ..., keywords: ...}))\<close>.\<close>

fun processNewsItems :: "store \<Rightarrow> nat NewsItem list \<Rightarrow> nat NewsItem list \<times> store" where
  "processNewsItems st [] = ([], st)"
| "processNewsItems st (item # items) =
     (let (ks, st1) = enhanceKeywords st item;
          item' = item\<lparr>title := cleanText (title item),
                        description := cleanText (description item),
                        news_keywords := ks\<rparr>;
          (items', st2) = processNewsItems st1 items
      in (item' # items', st2))"

section \<open>Monitors and alerts (AnalysisModule)\<close>

datatype Severity = SevLow | SevMedium | SevHigh | SevCritical

record Alert =
  alert_id :: string
  alert_monitorId :: "string option"
  alert_query :: "string option"
  severity :: Severity
  message :: string
  alert_timestamp :: nat
  acknowledged :: bool

text \<open>
  A monitor. \<open>alertThreshold\<close> and \<open>alertCount\<close> are numbers, the binary64 values they
  denote; \<open>monitor.alertCount++\<close> adds one in binary64.
\<close>

record Monitor =
  mon_id :: string
  mon_query :: string
  createdAt :: nat
  lastChecked :: nat
  isActive :: bool
  alertThreshold :: rat
  checkInterval :: nat
  alertCount :: rat

text \<open>
  What the module reads from outside: \<open>randomId w n\<close> is the string that the \<open>n\<close>-th
  call of \<open>generateId\<close> gets from \<open>Math.random().toString(36).substring(2, 10)\<close>, and
  \<open>dateNow w n\<close> is the time that the \<open>n\<close>-th \<open>new Date()\<close> reads, in milliseconds.
\<close>

record World =
  randomId :: "nat \<Rightarrow> string"
  dateNow :: "nat \<Rightarrow> nat"

text \<open>
  The state of the module: its monitors, its alert log, the cache of the latest result,
  and how often the random generator and the clock have been read so far.
\<close>

record 'res AnalysisModule =
  activeMonitors :: "Monitor list"
  alerts :: "Alert list"
  lastAnalysisTime :: "nat option"
  analysisCache :: "string \<Rightarrow> 'res option"
  randomCalls :: nat
  dateReads :: nat

definition dquote :: string where
  "dquote = [char_of (34 :: nat)]"

text \<open>
  \<open>evaluateMonitor\<close>: the loop over the news counts the items whose text contains the
  query; the market data it is also given is not used.
\<close>

definition itemText :: "('k, 'z) NewsItem_scheme \<Rightarrow> string" where
  "itemText item = toLowerCase (title item @ '' '' @ description item)"

fun countMatches :: "string \<Rightarrow> ('k, 'z) NewsItem_scheme list \<Rightarrow> nat \<Rightarrow> nat" where
  "countMatches query [] matchCount = matchCount"
| "countMatches query (item # news) matchCount =
     countMatches query news
       (if includesSub (itemText item) query then matchCount + 1 else matchCount)"

definition matchRatio :: "Monitor \<Rightarrow> ('k, 'z) NewsItem_scheme list \<Rightarrow> number" where
  "matchRatio monitor news =
     divideCounts (countMatches (toLowerCase (mon_query monitor)) news 0) (max (length news) 1)"

definition evaluateMonitor :: "Monitor \<Rightarrow> ('k, 'z) NewsItem_scheme list \<Rightarrow> bool" where
  "evaluateMonitor monitor news = geq (matchRatio monitor news) (alertThreshold monitor)"

text \<open>
  The body of the loop of \<open>checkMonitors\<close> for a monitor that alerts: the monitor as it
  is afterwards, and the alert that is pushed onto the log.
\<close>

definition triggered :: "World \<Rightarrow> 'res AnalysisModule \<Rightarrow> Monitor \<Rightarrow> Monitor" where
  "triggered w s monitor =
     monitor\<lparr>alertCount := fadd (alertCount monitor) 1,
             lastChecked := dateNow w (dateReads s)\<rparr>"

definition newAlert :: "World \<Rightarrow> 'res AnalysisModule \<Rightarrow> Monitor \<Rightarrow> Alert" where
  "newAlert w s monitor =
     \<lparr>alert_id = randomId w (randomCalls s),
      alert_monitorId = Some (mon_id monitor),
      alert_query = Some (mon_query monitor),
      severity = SevMedium,
      message = ''Monitor '' @ dquote @ mon_query monitor @ dquote @ '' triggered an alert'',
      alert_timestamp = dateNow w (dateReads s + 1),
      acknowledged = False\<rparr>"

fun checkLoop ::
  "World \<Rightarrow> ('k, 'z) NewsItem_scheme list \<Rightarrow> Monitor list \<Rightarrow> 'res AnalysisModule \<Rightarrow> nat
   \<Rightarrow> Monitor list \<times> 'res AnalysisModule \<times> nat" where
  "checkLoop w news [] s alertsTriggered = ([], s, alertsTriggered)"
| "checkLoop w news (monitor # rest) s alertsTriggered =
     (if \<not> isActive monitor then
        (let (ms, s', n) = checkLoop w news rest s alertsTriggered in (monitor # ms, s', n))
      else if evaluateMonitor monitor news then
        (let s1 = s\<lparr>alerts := alerts s @ [newAlert w s monitor],
                     randomCalls := randomCalls s + 1,
                     dateReads := dateReads s + 2\<rparr>;
             (ms, s', n) = checkLoop w news rest s1 (alertsTriggered + 1)
         in (triggered w s monitor # ms, s', n))
      else
        (let (ms, s', n) = checkLoop w news rest s alertsTriggered in (monitor # ms, s', n)))"

text \<open>
  \<open>checkMonitors\<close>. The batch is what \<open>newsModule.getNews('all', 100)\<close> returned; the
  monitors are objects of the array \<open>activeMonitors\<close>, changed in place. The local
  counters \<open>matchCount\<close> and \<open>alertsTriggered\<close> count elements of one array, which has
  fewer than \<open>2^32\<close> of them, so their increments are exact and they are natural
  numbers here.
\<close>

definition checkMonitors ::
  "World \<Rightarrow> ('k, 'z) NewsItem_scheme list \<Rightarrow> 'res AnalysisModule \<Rightarrow> string \<times> 'res AnalysisModule" where
  "checkMonitors w news s =
     (if length (activeMonitors s) = 0 then (''No active monitors to check.'', s)
      else
        (let (ms, s', alertsTriggered) = checkLoop w news (activeMonitors s) s 0
         in (''Monitor check completed. '' @ showNat alertsTriggered @ '' alerts triggered.'',
             s'\<lparr>activeMonitors := ms\<rparr>)))"

definition removeMonitor :: "string \<Rightarrow> 'res AnalysisModule \<Rightarrow> string \<times> 'res AnalysisModule" where
  "removeMonitor monitorId s =
     (let initialCount = length (activeMonitors s);
          s' = s\<lparr>activeMonitors := filter (\<lambda>m. mon_id m \<noteq> monitorId) (activeMonitors s)\<rparr>
      in if length (activeMonitors s') < initialCount
         then (''Monitor '' @ monitorId @ '' removed successfully.'', s')
         else (''Monitor '' @ monitorId @ '' not found.'', s'))"

definition addMonitor :: "World \<Rightarrow> string \<Rightarrow> 'res AnalysisModule \<Rightarrow> string \<times> 'res AnalysisModule" where
  "addMonitor w query s =
     (let monitor =
            \<lparr>mon_id = randomId w (randomCalls s),
             mon_query = query,
             createdAt = dateNow w (dateReads s),
             lastChecked = dateNow w (dateReads s + 1),
             isActive = True,
             alertThreshold = fl (7 / 10),
             checkInterval = 3600,
             alertCount = 0\<rparr>
      in (''Monitor added successfully (ID: '' @ mon_id monitor @ ''). Query: ''
            @ dquote @ query @ dquote,
          s\<lparr>activeMonitors := activeMonitors s @ [monitor],
            randomCalls := randomCalls s + 1,
            dateReads := dateReads s + 2\<rparr>))"

section \<open>The analysis run (AnalysisModule)\<close>

datatype RiskLevel = RiskLow | RiskMedium | RiskHigh | RiskCritical

datatype OpportunityType =
  arbitrage | momentum | mean_reversion | breakout | grid_trading | hedging
  | long_term_investment | short_term_trade | high_potential | low_risk

text \<open>
  Of a risk and of an opportunity the module reads one field each; the other fields of
  the two interfaces are the extension of the record.
\<close>

record RiskAssessment =
  level :: RiskLevel

record Opportunity =
  opp_type :: OpportunityType





text \<open>
  \<open>calculateConfidence\<close>. The literals \<open>0.3\<close>, \<open>0.4\<close>, \<open>0.2\<close> and \<open>0.1\<close> are the
  binary64 values nearest to them; \<open>Math.round\<close> rounds a tie upwards, as \<^const>\<open>round\<close>
  does.
\<close>

definition calculateConfidence :: "'p list \<Rightarrow> 't list \<Rightarrow> 'r list \<Rightarrow> 'o list \<Rightarrow> int" where
  "calculateConfidence ps ts rs opps =
     (let totalItems = length ps + length ts + length rs + length opps in
      if totalItems = 0 then 0
      else
        (let patternWeight = fmul (of_nat (length ps)) (fl (3 / 10));
             trendWeight = fmul (of_nat (length ts)) (fl (4 / 10));
             riskWeight = fmul (of_nat (length rs)) (fl (2 / 10));
             opportunityWeight = fmul (of_nat (length opps)) (fl (1 / 10));
             weightedTotal =
               fadd (fadd (fadd patternWeight trendWeight) riskWeight) opportunityWeight;
             maxPossible = fmul (of_nat totalItems) (fl (4 / 10))
         in min 100 (round (fmul (fdiv weightedTotal maxPossible) 100))))"

text \<open>The confidence as the specification writes it, in exact arithmetic.\<close>

definition specConfidence :: "nat \<Rightarrow> nat \<Rightarrow> nat \<Rightarrow> nat \<Rightarrow> int" where
  "specConfidence p t r k =
     (if p + t + r + k = 0 then 0
      else min 100 (round (100 * (3 / 10 * of_nat p + 4 / 10 * of_nat t + 2 / 10 * of_nat r
                                   + 1 / 10 * of_nat k)
                             / (4 / 10 * (of_nat (p + t + r + k) :: rat)))))"


section \<open>The correlation matrix\<close>

text \<open>
  Modelled from the spec: \<open>CorrelationAnalyzer.analyzeCorrelations\<close>, of the strategies
  module, which is not among the sources (the sources hold its caller \<open>getCorrelations\<close>
  and the interface \<open>CorrelationMatrix\<close> of its result). The specification says: the
  Pearson correlation of each pair of assets over their overlapping time window; an
  asset with fewer than a minimum number of samples is left out of the matrix; the
  matrix has a unit diagonal by construction. A return series is a list of samples, each
  a time and a value; coefficients are real numbers.
\<close>

type_synonym series = "(nat \<times> real) list"

definition window :: "series \<Rightarrow> series \<Rightarrow> nat list" where
  "window a b = sorted_list_of_set (fst ` set a \<inter> fst ` set b)"

definition valueAt :: "series \<Rightarrow> nat \<Rightarrow> real" where
  "valueAt a t = (case map_of a t of None \<Rightarrow> 0 | Some v \<Rightarrow> v)"

definition mean :: "real list \<Rightarrow> real" where
  "mean xs = sum_list xs / real (length xs)"

definition pearson :: "(real \<times> real) list \<Rightarrow> real" where
  "pearson ps =
     (let mx = mean (map fst ps);
          my = mean (map snd ps);
          cov = (\<Sum>(x, y) \<leftarrow> ps. (x - mx) * (y - my));
          vx = (\<Sum>(x, y) \<leftarrow> ps. (x - mx) ^ 2);
          vy = (\<Sum>(x, y) \<leftarrow> ps. (y - my) ^ 2)
      in cov / (sqrt vx * sqrt vy))"

definition correlation :: "series \<Rightarrow> series \<Rightarrow> real" where
  "correlation a b = pearson (map (\<lambda>t. (valueAt a t, valueAt b t)) (window a b))"

definition includedAssets :: "nat \<Rightarrow> ('a \<Rightarrow> series) \<Rightarrow> 'a list \<Rightarrow> 'a list" where
  "includedAssets minSamples returns assets =
     filter (\<lambda>a. minSamples \<le> length (returns a)) assets"

record 'a CorrelationMatrix =
  assets :: "'a list"
  correlations :: "real list list"

definition analyzeCorrelations :: "nat \<Rightarrow> ('a \<Rightarrow> series) \<Rightarrow> 'a list \<Rightarrow> 'a CorrelationMatrix" where
  "analyzeCorrelations minSamples returns requested =
     (let kept = includedAssets minSamples returns requested;
          n = length kept
      in \<lparr>assets = kept,
          correlations =
            map (\<lambda>i. map (\<lambda>j. if i = j then 1
                                else correlation (returns (kept ! i)) (returns (kept ! j)))
                          [0..<n])
                [0..<n]\<rparr>)"

section \<open>Auxiliary notions and example data\<close>

text \<open>A monitor fires on a batch when it is active and its evaluation says so.\<close>

definition fires :: "('k, 'z) NewsItem_scheme list \<Rightarrow> Monitor \<Rightarrow> bool" where
  "fires news m = (isActive m \<and> evaluateMonitor m news)"

text \<open>The number of items of a batch whose text contains the query, whatever the case.\<close>

definition matching :: "string \<Rightarrow> ('k, 'z) NewsItem_scheme list \<Rightarrow> nat" where
  "matching query news =
     length (filter (\<lambda>item. sublist (toLowerCase query)
                               (toLowerCase (title item @ '' '' @ description item))) news)"


text \<open>
  The unit roundoff of binary64, and a value that is within \<open>n\<close> roundings of an exact
  non-negative quantity.
\<close>

definition ulp :: rat where
  "ulp = 1 / 2 ^ 53"

definition approx :: "nat \<Rightarrow> rat \<Rightarrow> rat \<Rightarrow> bool" where
  "approx n x X = ((1 - ulp) ^ n * X \<le> x \<and> x \<le> (1 + ulp) ^ n * X)"

definition exWorld :: World where
  "exWorld = \<lparr>randomId = (\<lambda>n. ''k3f'' @ replicate n CHR ''a''),
              dateNow = (\<lambda>n. 1700000000000 + n)\<rparr>"


definition exItem :: "string \<Rightarrow> string \<Rightarrow> unit NewsItem" where
  "exItem t d =
     \<lparr>news_id = ''aHR0cHM6Ly'', title = t, description = d, content = None,
      url = ''https://example.org/a'', source = ''Feed'', category = ''crypto'',
      publishedAt = 1699999000000, region = None, news_keywords = (), alertLevel = NoLevel\<rparr>"

definition exBatch :: "unit NewsItem list" where
  "exBatch =
     [exItem ''Bitcoin breaks out'' ''ETF inflows surge'',
      exItem ''Markets open flat'' ''BITCOIN steady'',
      exItem ''Why bitcoin matters'' ''An essay'',
      exItem ''Miners expand'' ''New bitcoin farms'',
      exItem ''Ethereum upgrade'' ''Shipping soon'',
      exItem ''BitCoin futures'' ''Open interest up'',
      exItem ''Regulators meet'' ''On bitcoin custody'',
      exItem ''Gold rallies'' ''Safe haven demand'',
      exItem ''A bitcoin primer'' ''Basics'',
      exItem ''Banks and Bitcoin'' ''A survey'']"

definition exMonitor :: "rat \<Rightarrow> Monitor" where
  "exMonitor threshold =
     \<lparr>mon_id = ''q7w1e5r9'', mon_query = ''Bitcoin'', createdAt = 1699990000000,
      lastChecked = 1699990000000, isActive = True, alertThreshold = threshold,
      checkInterval = 3600, alertCount = 0\<rparr>"

definition exMonitorB :: Monitor where
  "exMonitorB =
     \<lparr>mon_id = ''b2n8m4v6'', mon_query = ''a'', createdAt = 1699990000000,
      lastChecked = 1699990000000, isActive = False, alertThreshold = 0,
      checkInterval = 60, alertCount = 0\<rparr>"

definition exMonitorC :: Monitor where
  "exMonitorC =
     \<lparr>mon_id = ''c5x0z2l8'', mon_query = ''Ethereum'', createdAt = 1699990000000,
      lastChecked = 1699990000000, isActive = True, alertThreshold = fl (7 / 10),
      checkInterval = 3600, alertCount = 0\<rparr>"

definition exMonitorFull :: Monitor where
  "exMonitorFull =
     \<lparr>mon_id = ''f1u2l3l4'', mon_query = ''Bitcoin'', createdAt = 1699990000000,
      lastChecked = 1699990000000, isActive = True, alertThreshold = fl (7 / 10),
      checkInterval = 3600, alertCount = 9007199254740992\<rparr>"

definition exModule :: "Monitor list \<Rightarrow> 'res AnalysisModule" where
  "exModule ms =
     \<lparr>activeMonitors = ms, alerts = [], lastAnalysisTime = None,
      analysisCache = (\<lambda>k. None), randomCalls = 0, dateReads = 0\<rparr>"


definition exRss :: RssItem where
  "exRss = \<lparr>rss_title = Some ''War and a minor issue'', contentSnippet = None,
            rss_content = None\<rparr>"

definition exRssCalm :: RssItem where
  "exRssCalm = \<lparr>rss_title = Some ''Quarterly results published'',
                contentSnippet = Some ''Revenue was flat'', rss_content = None\<rparr>"

definition exRaw :: "nat NewsItem" where
  "exRaw =
     \<lparr>news_id = ''aHR0cHM6Ly'', title = ''Chip  launch'', description = ''New device'',
      content = None, url = ''https://example.org/b'', source = ''Feed'', category = ''tech'',
      publishedAt = 1699999000000, region = Some ''asia'', news_keywords = 0,
      alertLevel = NoLevel\<rparr>"

definition exReturns :: "string \<Rightarrow> series" where
  "exReturns a =
     (if a = ''BTC'' then [(1, 2), (2, -1), (3, 4)]
      else if a = ''ETH'' then [(1, 1), (2, 0), (3, 5)]
      else [])"

section \<open>Facts about strings and numbers\<close>

lemma startsWith_iff_prefix: "startsWith t q \<longleftrightarrow> prefix q t"
  by (induction t q rule: startsWith.induct) auto

lemma includesSub_iff_sublist: "includesSub t q \<longleftrightarrow> sublist q t"
  by (induction t) (auto simp: startsWith_iff_prefix sublist_Cons_right)

lemma anyKeyword_iff: "anyKeyword text ks \<longleftrightarrow> (\<exists>k\<in>set ks. sublist k text)"
  by (induction ks) (auto simp: includesSub_iff_sublist)

lemma lowerChar_capitals:
  "lowerChar CHR ''A'' = CHR ''a''" "lowerChar CHR ''B'' = CHR ''b''"
  "lowerChar CHR ''C'' = CHR ''c''" "lowerChar CHR ''D'' = CHR ''d''"
  "lowerChar CHR ''E'' = CHR ''e''" "lowerChar CHR ''F'' = CHR ''f''"
  "lowerChar CHR ''G'' = CHR ''g''" "lowerChar CHR ''H'' = CHR ''h''"
  "lowerChar CHR ''I'' = CHR ''i''" "lowerChar CHR ''J'' = CHR ''j''"
  "lowerChar CHR ''K'' = CHR ''k''" "lowerChar CHR ''L'' = CHR ''l''"
  "lowerChar CHR ''M'' = CHR ''m''" "lowerChar CHR ''N'' = CHR ''n''"
  "lowerChar CHR ''O'' = CHR ''o''" "lowerChar CHR ''P'' = CHR ''p''"
  "lowerChar CHR ''Q'' = CHR ''q''" "lowerChar CHR ''R'' = CHR ''r''"
  "lowerChar CHR ''S'' = CHR ''s''" "lowerChar CHR ''T'' = CHR ''t''"
  "lowerChar CHR ''U'' = CHR ''u''" "lowerChar CHR ''V'' = CHR ''v''"
  "lowerChar CHR ''W'' = CHR ''w''" "lowerChar CHR ''X'' = CHR ''x''"
  "lowerChar CHR ''Y'' = CHR ''y''" "lowerChar CHR ''Z'' = CHR ''z''"
  by code_simp+

lemma lowerChar_other:
  "\<not> ((65 \<le> (of_char c :: nat) \<and> (of_char c :: nat) \<le> 90)
      \<or> (192 \<le> (of_char c :: nat) \<and> (of_char c :: nat) \<le> 222 \<and> (of_char c :: nat) \<noteq> 215))
   \<Longrightarrow> lowerChar c = c"
  by (auto simp: lowerChar_def Let_def)

lemmas lower_eval = toLowerCase_def lowerChar_capitals lowerChar_other

lemma fl_zero: "fl 0 = 0"
  by (simp add: fl_def)

lemma threshold_07: "fl (7 / 10) \<le> fdiv 8 10"
  by code_simp

lemma threshold_09: "\<not> fl (9 / 10) \<le> fdiv 8 10"
  by code_simp

lemma threshold_07_pos: "0 < fl (7 / 10)"
  by code_simp

section \<open>Facts about rounding\<close>

text \<open>
  Rounding to binary64 keeps the sign and changes a positive number by at most the
  fraction \<open>2^-53\<close> of it. The bounds below follow a computation through its roundings.
\<close>

lemma pow2_pos: "0 < pow2 e"
  by (simp add: pow2_def)

lemma pow2_powi: "pow2 e = 2 powi e"
  by (simp add: pow2_def power_int_def inverse_eq_divide power_one_over)

lemma pow2_add: "pow2 (a + b) = pow2 a * pow2 b"
  by (simp add: pow2_powi power_int_add)

lemma pow2_inverse: "pow2 (52 - e) * pow2 (e - 52) = 1"
  by (simp add: pow2_add [symmetric] pow2_def)

lemma pow2_neg_Suc: "0 \<le> k \<Longrightarrow> pow2 (- k - 1) = 1 / (2 * 2 ^ nat k)"
proof -
  assume k: "0 \<le> k"
  then have "nat (- (- k - 1)) = Suc (nat k)" by simp
  moreover have "\<not> 0 \<le> - k - 1" using k by simp
  ultimately show ?thesis by (simp only: pow2_def if_False power_Suc)
qed

lemma roundHalfEven_nonneg: "0 \<le> m \<Longrightarrow> 0 \<le> roundHalfEven m"
  by (auto simp: roundHalfEven_def Let_def)

lemma roundHalfEven_near: "\<bar>of_int (roundHalfEven m) - m\<bar> \<le> 1 / 2"
proof -
  define d where "d = m - of_int \<lfloor>m\<rfloor>"
  have d: "0 \<le> d" "d < 1" unfolding d_def by linarith+
  have m: "m = of_int \<lfloor>m\<rfloor> + d" unfolding d_def by simp
  consider "d < 1 / 2" | "1 / 2 < d" | "d = 1 / 2" by linarith
  then show ?thesis
  proof cases
    case 1
    then have "roundHalfEven m = \<lfloor>m\<rfloor>"
      by (simp add: roundHalfEven_def Let_def d_def)
    then show ?thesis using d 1 m by (simp add: abs_if, linarith?)
  next
    case 2
    then have "roundHalfEven m = \<lfloor>m\<rfloor> + 1"
      by (simp add: roundHalfEven_def Let_def d_def)
    then show ?thesis using d 2 m by (simp add: abs_if, linarith?)
  next
    case 3
    then have "roundHalfEven m = \<lfloor>m\<rfloor> \<or> roundHalfEven m = \<lfloor>m\<rfloor> + 1"
      by (simp add: roundHalfEven_def Let_def d_def)
    then show ?thesis using d 3 m by (auto simp: abs_if)
  qed
qed

lemma binade_le:
  assumes "0 < x"
  shows "pow2 (binade x) \<le> x"
proof (cases "1 \<le> x")
  case True
  then have p: "0 < \<lfloor>x\<rfloor>" by linarith
  from bitlen_bounds[OF p] have "2 ^ nat (bitlen \<lfloor>x\<rfloor> - 1) \<le> \<lfloor>x\<rfloor>" by simp
  then have "(of_int (2 ^ nat (bitlen \<lfloor>x\<rfloor> - 1)) :: rat) \<le> of_int \<lfloor>x\<rfloor>"
    by (simp only: of_int_le_iff)
  also have "\<dots> \<le> x" by linarith
  finally have "(2 :: rat) ^ nat (bitlen \<lfloor>x\<rfloor> - 1) \<le> x" by simp
  moreover have "0 \<le> bitlen \<lfloor>x\<rfloor> - 1"
    using p bitlen_bounds[OF p] by (cases "bitlen \<lfloor>x\<rfloor> \<le> 0") (auto simp: bitlen_nonneg)
  ultimately show ?thesis using True by (simp add: binade_def pow2_def)
next
  case False
  let ?y = "1 / x"
  let ?k = "bitlen \<lfloor>?y\<rfloor> - 1"
  have y1: "1 < ?y" using False assms by simp
  then have p: "0 < \<lfloor>?y\<rfloor>" by linarith
  have k0: "0 \<le> ?k"
    using p bitlen_bounds[OF p] by (cases "bitlen \<lfloor>?y\<rfloor> \<le> 0") (auto simp: bitlen_nonneg)
  from bitlen_bounds[OF p] have "\<lfloor>?y\<rfloor> < 2 ^ nat (bitlen \<lfloor>?y\<rfloor>)" by simp
  then have "\<lfloor>?y\<rfloor> + 1 \<le> 2 ^ nat (bitlen \<lfloor>?y\<rfloor>)" by simp
  then have "(of_int (\<lfloor>?y\<rfloor> + 1) :: rat) \<le> of_int (2 ^ nat (bitlen \<lfloor>?y\<rfloor>))"
    by (simp only: of_int_le_iff)
  then have "(of_int \<lfloor>?y\<rfloor> :: rat) + 1 \<le> 2 ^ nat (bitlen \<lfloor>?y\<rfloor>)" by simp
  moreover have "?y < of_int \<lfloor>?y\<rfloor> + 1" by linarith
  ultimately have up: "?y < 2 ^ nat (bitlen \<lfloor>?y\<rfloor>)" by linarith
  have "nat (bitlen \<lfloor>?y\<rfloor>) = Suc (nat ?k)" using k0 by simp
  with up have up': "?y < 2 * 2 ^ nat ?k" by simp
  show ?thesis
  proof (cases "x * pow2 ?k = 1")
    case True
    have "pow2 (- ?k) * pow2 ?k = 1"
      using pow2_add[of "- ?k" ?k] by (simp add: pow2_def)
    with True have "(pow2 (- ?k) - x) * pow2 ?k = 0"
      by (simp add: algebra_simps)
    then have "pow2 (- ?k) = x" using pow2_pos[of ?k] by simp
    then show ?thesis using False True
      by (simp add: binade_def Let_def)
  next
    case F: False
    have "1 / (2 * 2 ^ nat ?k) < x"
      using up' assms by (simp add: field_simps)
    moreover have "pow2 (- ?k - 1) = 1 / (2 * 2 ^ nat ?k)"
      using k0 by (rule pow2_neg_Suc)
    ultimately show ?thesis using False F
      by (simp add: binade_def Let_def)
  qed
qed

lemma binade_gt:
  assumes "0 < x"
  shows "x < pow2 (binade x + 1)"
proof (cases "1 \<le> x")
  case True
  then have p: "0 < \<lfloor>x\<rfloor>" by linarith
  have b1: "1 \<le> bitlen \<lfloor>x\<rfloor>"
    using p bitlen_bounds[OF p] by (cases "bitlen \<lfloor>x\<rfloor> \<le> 0") (auto simp: bitlen_nonneg)
  from bitlen_bounds[OF p] have "\<lfloor>x\<rfloor> + 1 \<le> 2 ^ nat (bitlen \<lfloor>x\<rfloor>)" by simp
  then have "(of_int (\<lfloor>x\<rfloor> + 1) :: rat) \<le> of_int (2 ^ nat (bitlen \<lfloor>x\<rfloor>))"
    by (simp only: of_int_le_iff)
  then have "(of_int \<lfloor>x\<rfloor> :: rat) + 1 \<le> 2 ^ nat (bitlen \<lfloor>x\<rfloor>)" by simp
  moreover have "x < of_int \<lfloor>x\<rfloor> + 1" by linarith
  ultimately have "x < 2 ^ nat (bitlen \<lfloor>x\<rfloor>)" by linarith
  then show ?thesis using True b1 by (simp add: binade_def pow2_def)
next
  case False
  let ?y = "1 / x"
  let ?k = "bitlen \<lfloor>?y\<rfloor> - 1"
  have y1: "1 < ?y" using False assms by simp
  then have p: "0 < \<lfloor>?y\<rfloor>" by linarith
  have k0: "0 \<le> ?k"
    using p bitlen_bounds[OF p] by (cases "bitlen \<lfloor>?y\<rfloor> \<le> 0") (auto simp: bitlen_nonneg)
  from bitlen_bounds[OF p] have "2 ^ nat ?k \<le> \<lfloor>?y\<rfloor>" by simp
  then have "(of_int (2 ^ nat ?k) :: rat) \<le> of_int \<lfloor>?y\<rfloor>" by (simp only: of_int_le_iff)
  moreover have "of_int \<lfloor>?y\<rfloor> \<le> ?y" by linarith
  ultimately have "(of_int (2 ^ nat ?k) :: rat) \<le> ?y" by (rule order_trans)
  then have "(2 :: rat) ^ nat ?k \<le> ?y" by simp
  then have "x * 2 ^ nat ?k \<le> 1" using assms by (simp add: field_simps)
  then have le: "x * pow2 ?k \<le> 1" using k0 by (simp add: pow2_def)
  have inv: "pow2 (- ?k) * pow2 ?k = 1"
    using pow2_add[of "- ?k" ?k] by (simp add: pow2_def)
  show ?thesis
  proof (cases "x * pow2 ?k = 1")
    case True
    with inv have "(pow2 (- ?k) - x) * pow2 ?k = 0" by (simp add: algebra_simps)
    then have e: "pow2 (- ?k) = x" using pow2_pos[of ?k] by simp
    have "pow2 (- ?k + 1) = pow2 (- ?k) * 2" using pow2_add[of "- ?k" 1] by (simp add: pow2_def)
    with e assms have "x < pow2 (- ?k + 1)" by simp
    then show ?thesis using False True by (simp add: binade_def Let_def)
  next
    case F: False
    with le have "x * pow2 ?k < pow2 (- ?k) * pow2 ?k" using inv by simp
    then have "x < pow2 (- ?k)" using pow2_pos[of ?k] by (simp only: mult_less_cancel_right, simp?)
    then show ?thesis using False F by (simp add: binade_def Let_def)
  qed
qed

text \<open>
  So the number that \<^const>\<open>fl\<close> rounds to an integer has exactly 53 binary digits before
  the point: \<^const>\<open>fl\<close> rounds to a 53-bit significand.
\<close>

lemma significand_range:
  assumes "0 < x"
  shows "2 ^ 52 \<le> x * pow2 (52 - binade x)" and "x * pow2 (52 - binade x) < 2 ^ 53"
proof -
  have s: "pow2 (52 - binade x) * pow2 (binade x) = pow2 52"
    "pow2 (52 - binade x) * pow2 (binade x + 1) = pow2 53"
    using pow2_add[of "52 - binade x" "binade x"] pow2_add[of "52 - binade x" "binade x + 1"]
    by simp_all
  have "pow2 (52 - binade x) * pow2 (binade x) \<le> pow2 (52 - binade x) * x"
    using binade_le[OF assms] pow2_pos[of "52 - binade x"] by (simp only: mult_le_cancel_left, simp?)
  then show "2 ^ 52 \<le> x * pow2 (52 - binade x)"
    unfolding s by (simp add: pow2_def mult.commute)
  have "pow2 (52 - binade x) * x < pow2 (52 - binade x) * pow2 (binade x + 1)"
    using binade_gt[OF assms] pow2_pos[of "52 - binade x"] by (simp only: mult_less_cancel_left, simp?)
  then show "x * pow2 (52 - binade x) < 2 ^ 53"
    unfolding s by (simp add: pow2_def mult.commute)
qed

lemma fl_pos_form:
  "0 < x \<Longrightarrow>
   fl x = of_int (roundHalfEven (x * pow2 (52 - binade x))) * pow2 (binade x - 52)"
  by (simp add: fl_def Let_def)

lemma fl_nonneg: "0 \<le> x \<Longrightarrow> 0 \<le> fl x"
proof (cases "x = 0")
  case True
  then show ?thesis by (simp add: fl_zero)
next
  case False
  assume "0 \<le> x"
  with False have p: "0 < x" by simp
  have "0 \<le> x * pow2 (52 - binade x)" using p pow2_pos[of "52 - binade x"] by simp
  then have "0 \<le> roundHalfEven (x * pow2 (52 - binade x))" by (rule roundHalfEven_nonneg)
  then show ?thesis using pow2_pos[of "binade x - 52"] by (simp add: fl_pos_form[OF p])
qed

lemma fl_error:
  assumes "0 < x"
  shows "\<bar>fl x - x\<bar> \<le> x / 2 ^ 53"
proof -
  let ?e = "binade x"
  let ?m = "x * pow2 (52 - ?e)"
  have xm: "x = ?m * pow2 (?e - 52)"
    using pow2_inverse[of ?e] by (simp add: mult.assoc)
  have "fl x - x = (of_int (roundHalfEven ?m) - ?m) * pow2 (?e - 52)"
    using xm by (simp add: fl_pos_form[OF assms] algebra_simps)
  then have "\<bar>fl x - x\<bar> = \<bar>of_int (roundHalfEven ?m) - ?m\<bar> * pow2 (?e - 52)"
    using pow2_pos[of "?e - 52"] by (simp add: abs_mult)
  also have "\<dots> \<le> 1 / 2 * pow2 (?e - 52)"
    using roundHalfEven_near[of ?m] pow2_pos[of "?e - 52"] by (simp add: mult_right_mono)
  also have "\<dots> = pow2 ?e / 2 ^ 53"
  proof -
    have "pow2 (?e - 52) = pow2 ?e * pow2 (- 52)"
      using pow2_add[of ?e "- 52"] by simp
    then show ?thesis by (simp add: pow2_def)
  qed
  also have "\<dots> \<le> x / 2 ^ 53"
    using binade_le[OF assms] by (simp add: divide_right_mono)
  finally show ?thesis .
qed

text \<open>
  A whole number up to \<open>2^53\<close> is a binary64 value, so adding one to a count below
  \<open>2^53\<close> is exact; at \<open>2^53\<close> the sum is a tie and rounds back to \<open>2^53\<close>.
\<close>

lemma roundHalfEven_of_int: "roundHalfEven (of_int z) = z"
  by (simp add: roundHalfEven_def Let_def)

lemma pow2_ge_one: "0 \<le> e \<Longrightarrow> 1 \<le> pow2 e"
  by (simp add: pow2_def)

lemma binade_of_nat:
  assumes "0 < k" "k < 2 ^ 53"
  shows "0 \<le> binade (of_nat k)" and "binade (of_nat k) \<le> 52"
proof -
  have x: "(1 :: rat) \<le> of_nat k" using assms by simp
  then have p: "0 < \<lfloor>(of_nat k :: rat)\<rfloor>" by simp
  have "1 \<le> bitlen \<lfloor>(of_nat k :: rat)\<rfloor>"
    using p bitlen_bounds[OF p]
    by (cases "bitlen \<lfloor>(of_nat k :: rat)\<rfloor> \<le> 0") (auto simp: bitlen_nonneg)
  then show "0 \<le> binade (of_nat k)" using x by (simp add: binade_def)
  show "binade (of_nat k) \<le> 52"
  proof (rule ccontr)
    assume "\<not> binade (of_nat k) \<le> 52"
    then have "0 \<le> binade (of_nat k) - 53" by simp
    then have "1 \<le> pow2 (binade (of_nat k) - 53)" by (rule pow2_ge_one)
    then have "pow2 53 * 1 \<le> pow2 53 * pow2 (binade (of_nat k) - 53)"
      using pow2_pos[of 53] by (simp only: mult_le_cancel_left, simp?)
    also have "\<dots> = pow2 (binade (of_nat k))"
      using pow2_add[of 53 "binade (of_nat k) - 53"] by simp
    also have "\<dots> \<le> of_nat k" using x by (intro binade_le) simp
    finally have "(2 :: rat) ^ 53 \<le> of_nat k" by (simp add: pow2_def)
    moreover have "(of_nat k :: rat) < of_nat (2 ^ 53)" using assms by (simp only: of_nat_less_iff)
    ultimately show False by simp
  qed
qed

lemma fl_of_nat:
  assumes "k \<le> 2 ^ 53"
  shows "fl (of_nat k) = of_nat k"
proof -
  consider "k = 0" | "k = 2 ^ 53" | "0 < k" "k < 2 ^ 53" using assms by linarith
  then show ?thesis
  proof cases
    case 1
    then show ?thesis by (simp add: fl_zero)
  next
    case 2
    have "fl (2 ^ 53) = 2 ^ 53" by code_simp
    with 2 show ?thesis by simp
  next
    case 3
    let ?e = "binade (of_nat k)"
    have e: "0 \<le> ?e" "?e \<le> 52" using 3 by (rule binade_of_nat)+
    have x: "(0 :: rat) < of_nat k" using 3 by simp
    have "pow2 (52 - ?e) = of_int (2 ^ nat (52 - ?e))" using e by (simp add: pow2_def)
    then have "of_nat k * pow2 (52 - ?e) = of_int (int k * 2 ^ nat (52 - ?e))" by simp
    then have "roundHalfEven (of_nat k * pow2 (52 - ?e)) = int k * 2 ^ nat (52 - ?e)"
      by (simp only: roundHalfEven_of_int)
    then have "fl (of_nat k) = of_int (int k * 2 ^ nat (52 - ?e)) * pow2 (?e - 52)"
      by (simp only: fl_pos_form[OF x])
    also have "\<dots> = of_nat k * (pow2 (52 - ?e) * pow2 (?e - 52))"
      using e by (simp add: pow2_def)
    also have "\<dots> = of_nat k" by (simp only: pow2_inverse, simp?)
    finally show ?thesis .
  qed
qed

lemma increment_exact: "n < 2 ^ 53 \<Longrightarrow> fadd (of_nat n) 1 = of_nat n + 1"
proof -
  assume "n < 2 ^ 53"
  then have "Suc n \<le> 2 ^ 53" by simp
  from fl_of_nat[OF this] show ?thesis by (simp add: fadd_def add.commute)
qed

lemma increment_stuck: "fadd 9007199254740992 1 = 9007199254740992"
  by code_simp

lemma ulp_bounds: "0 < ulp" "ulp < 1"
  by (simp_all add: ulp_def)

lemma fl_rel:
  assumes "0 \<le> x"
  shows "(1 - ulp) * x \<le> fl x \<and> fl x \<le> (1 + ulp) * x"
proof (cases "x = 0")
  case True
  then show ?thesis by (simp add: fl_zero)
next
  case False
  with assms have "0 < x" by simp
  from fl_error[OF this] have "fl x - x \<le> x / 2 ^ 53" "x - fl x \<le> x / 2 ^ 53"
    by linarith+
  then have "fl x \<le> x + x * ulp" "x - x * ulp \<le> fl x"
    by (simp_all add: ulp_def)
  then show ?thesis by (simp add: algebra_simps)
qed

lemma approx_exact: "approx 0 X X"
  by (simp add: approx_def)

lemma approx_nonneg: "0 \<le> X \<Longrightarrow> approx n x X \<Longrightarrow> 0 \<le> x"
proof -
  assume X: "0 \<le> X" and a: "approx n x X"
  have "0 \<le> (1 - ulp) ^ n * X" using X ulp_bounds by simp
  with a show ?thesis by (simp add: approx_def)
qed

lemma approx_fl:
  assumes X: "0 \<le> X" and a: "approx n x X"
  shows "approx (Suc n) (fl x) X"
proof -
  have x: "0 \<le> x" using X a by (rule approx_nonneg)
  from fl_rel[OF x] have l: "(1 - ulp) * x \<le> fl x" and u: "fl x \<le> (1 + ulp) * x" by simp_all
  have "(1 - ulp) * ((1 - ulp) ^ n * X) \<le> (1 - ulp) * x"
    using a ulp_bounds by (simp add: approx_def mult_left_mono)
  with l have L: "(1 - ulp) ^ Suc n * X \<le> fl x" by (simp add: mult.assoc)
  have "(1 + ulp) * x \<le> (1 + ulp) * ((1 + ulp) ^ n * X)"
    using a ulp_bounds by (simp add: approx_def mult_left_mono)
  with u have U: "fl x \<le> (1 + ulp) ^ Suc n * X" by (simp add: mult.assoc)
  from L U show ?thesis by (simp add: approx_def)
qed

lemma approx_weaken:
  assumes X: "0 \<le> X" and a: "approx n x X" and nm: "n \<le> m"
  shows "approx m x X"
proof -
  have "(1 - ulp) ^ m \<le> (1 - ulp) ^ n"
    using nm ulp_bounds by (intro power_decreasing) simp_all
  then have "(1 - ulp) ^ m * X \<le> (1 - ulp) ^ n * X" using X by (rule mult_right_mono)
  moreover have "(1 + ulp) ^ n \<le> (1 + ulp) ^ m"
    using nm ulp_bounds by (intro power_increasing) simp_all
  then have "(1 + ulp) ^ n * X \<le> (1 + ulp) ^ m * X" using X by (rule mult_right_mono)
  ultimately show ?thesis using a by (simp add: approx_def)
qed

lemma approx_add: "approx n x X \<Longrightarrow> approx n y Y \<Longrightarrow> approx n (x + y) (X + Y)"
  by (simp add: approx_def algebra_simps)

lemma approx_scale: "0 \<le> c \<Longrightarrow> approx n x X \<Longrightarrow> approx n (c * x) (c * X)"
proof -
  assume c: "0 \<le> c" and a: "approx n x X"
  from a have "c * ((1 - ulp) ^ n * X) \<le> c * x" "c * x \<le> c * ((1 + ulp) ^ n * X)"
    using c by (simp_all add: approx_def mult_left_mono)
  then show ?thesis by (simp add: approx_def mult.left_commute)
qed

lemma approx_fmul_const:
  assumes "0 \<le> c"
  shows "approx 2 (fmul (of_nat k) (fl c)) (of_nat k * c)"
proof -
  have "approx 1 (fl c) c"
    using approx_fl[OF assms approx_exact] by simp
  then have "approx 1 (of_nat k * fl c) (of_nat k * c)"
    by (intro approx_scale) simp_all
  from approx_fl[OF _ this] assms show ?thesis
    by (simp add: fmul_def numeral_2_eq_2)
qed

lemma approx_fadd:
  assumes "0 \<le> X" "0 \<le> Y" "approx n x X" "approx m y Y" "n \<le> k" "m \<le> k"
  shows "approx (Suc k) (fadd x y) (X + Y)"
proof -
  have "approx k x X" "approx k y Y"
    using assms by (auto intro: approx_weaken)
  then have "approx k (x + y) (X + Y)" by (rule approx_add)
  from approx_fl[OF _ this] assms show ?thesis by (simp add: fadd_def)
qed

lemma ulp_upper: "(1 + ulp) ^ 7 \<le> 201 / 200 * (1 - ulp) ^ 2"
  by code_simp

lemma ulp_lower: "199 / 200 * (1 + ulp) ^ 2 \<le> (1 - ulp) ^ 7"
  by code_simp

lemma round_close:
  fixes q Q :: rat
  assumes "\<bar>q - Q\<bar> \<le> 1 / 2"
  shows "\<bar>round q - round Q\<bar> \<le> 1"
proof -
  have "q + 1 / 2 \<le> Q + 1 / 2 + 1" "Q + 1 / 2 \<le> q + 1 / 2 + 1"
    using assms by linarith+
  then have "\<lfloor>q + 1 / 2\<rfloor> \<le> \<lfloor>Q + 1 / 2 + 1\<rfloor>" "\<lfloor>Q + 1 / 2\<rfloor> \<le> \<lfloor>q + 1 / 2 + 1\<rfloor>"
    by (simp_all only: floor_mono)
  moreover have "\<lfloor>Q + 1 / 2 + 1\<rfloor> = \<lfloor>Q + 1 / 2\<rfloor> + 1" "\<lfloor>q + 1 / 2 + 1\<rfloor> = \<lfloor>q + 1 / 2\<rfloor> + 1"
    using floor_add_int[of "Q + 1 / 2" 1] floor_add_int[of "q + 1 / 2" 1] by simp_all
  ultimately show ?thesis
    by (simp only: round_def abs_le_iff) linarith
qed

lemma quotient_close:
  fixes p t r k :: nat
  defines "n \<equiv> p + t + r + k"
  defines "W \<equiv> 3 / 10 * of_nat p + 4 / 10 * of_nat t + 2 / 10 * of_nat r + 1 / 10 * (of_nat k :: rat)"
  defines "M \<equiv> 4 / 10 * (of_nat n :: rat)"
  defines "wt \<equiv> fadd (fadd (fadd (fmul (of_nat p) (fl (3 / 10))) (fmul (of_nat t) (fl (4 / 10))))
                            (fmul (of_nat r) (fl (2 / 10))))
                      (fmul (of_nat k) (fl (1 / 10)))"
  defines "mp \<equiv> fmul (of_nat n) (fl (4 / 10))"
  assumes n: "0 < n"
  shows "0 < mp" and "\<bar>fmul (fdiv wt mp) 100 - 100 * W / M\<bar> \<le> 1 / 2"
proof -
  define a where "a = 1 + ulp"
  define b where "b = 1 - ulp"
  have a: "0 < a" and b: "0 < b" using ulp_bounds by (simp_all add: a_def b_def)
  have M: "0 < M" using n by (simp add: M_def)
  have W: "0 \<le> W" by (simp add: W_def)
  have WM: "W \<le> M"
  proof -
    have "3 * p + 4 * t + 2 * r + k \<le> 4 * n" by (simp add: n_def)
    then have "(of_nat (3 * p + 4 * t + 2 * r + k) :: rat) \<le> of_nat (4 * n)"
      by (simp only: of_nat_le_iff)
    then show ?thesis by (simp add: W_def M_def)
  qed
  have ap: "approx 2 (fmul (of_nat p) (fl (3 / 10))) (3 / 10 * of_nat p)"
    using approx_fmul_const[of "3 / 10" p] by (simp add: mult.commute)
  have at: "approx 2 (fmul (of_nat t) (fl (4 / 10))) (4 / 10 * of_nat t)"
    using approx_fmul_const[of "4 / 10" t] by (simp add: mult.commute)
  have ar: "approx 2 (fmul (of_nat r) (fl (2 / 10))) (2 / 10 * of_nat r)"
    using approx_fmul_const[of "2 / 10" r] by (simp add: mult.commute)
  have ak: "approx 2 (fmul (of_nat k) (fl (1 / 10))) (1 / 10 * of_nat k)"
    using approx_fmul_const[of "1 / 10" k] by (simp add: mult.commute)
  have s1: "approx 3 (fadd (fmul (of_nat p) (fl (3 / 10))) (fmul (of_nat t) (fl (4 / 10))))
              (3 / 10 * of_nat p + 4 / 10 * of_nat t)"
    using approx_fadd[OF _ _ ap at, of 2] by (simp add: numeral_3_eq_3 numeral_2_eq_2)
  have s2: "approx 4 (fadd (fadd (fmul (of_nat p) (fl (3 / 10))) (fmul (of_nat t) (fl (4 / 10))))
                        (fmul (of_nat r) (fl (2 / 10))))
              (3 / 10 * of_nat p + 4 / 10 * of_nat t + 2 / 10 * of_nat r)"
    using approx_fadd[OF _ _ s1 ar, of 3] by (simp add: eval_nat_numeral)
  have s3: "approx 5 wt W"
    unfolding wt_def W_def
    using approx_fadd[OF _ _ s2 ak, of 4] by (simp add: eval_nat_numeral)
  have am: "approx 2 mp M"
    unfolding mp_def M_def
    using approx_fmul_const[of "4 / 10" n] by (simp add: mult.commute)
  have wtU: "wt \<le> a ^ 5 * W" and wtL: "b ^ 5 * W \<le> wt"
    using s3 by (simp_all add: approx_def a_def b_def)
  have mpU: "mp \<le> a ^ 2 * M" and mpL: "b ^ 2 * M \<le> mp"
    using am by (simp_all add: approx_def a_def b_def)
  have "0 < b ^ 2 * M" using b M by simp
  with mpL show mp: "0 < mp" by linarith
  have wt: "0 \<le> wt" using W s3 by (rule approx_nonneg)
  define d where "d = wt / mp"
  have d: "0 \<le> d" using wt mp by (simp add: d_def)
  have dmp: "d * mp = wt" using mp by (simp add: d_def)
  define qd where "qd = fdiv wt mp"
  have qd_rel: "b * d \<le> qd" "qd \<le> a * d"
    using fl_rel[OF d] by (simp_all add: qd_def fdiv_def d_def a_def b_def)
  have qd: "0 \<le> qd" using fl_nonneg[OF d] by (simp add: qd_def fdiv_def d_def)
  define q where "q = fmul qd 100"
  have "0 \<le> qd * 100" using qd by simp
  from fl_rel[OF this] have q_rel: "b * (qd * 100) \<le> q" "q \<le> a * (qd * 100)"
    by (simp_all add: q_def fmul_def a_def b_def)
  \<comment> \<open>the upper bound\<close>
  have "d * (b ^ 2 * M) \<le> d * mp" using mpL d by (rule mult_left_mono)
  with dmp wtU have U1: "d * (b ^ 2 * M) \<le> a ^ 5 * W" by simp
  have "qd * (b ^ 2 * M) \<le> (a * d) * (b ^ 2 * M)"
    using qd_rel(2) b M by (intro mult_right_mono) simp_all
  also have "\<dots> = a * (d * (b ^ 2 * M))" by (simp add: mult.assoc)
  also have "\<dots> \<le> a * (a ^ 5 * W)" using U1 a by (intro mult_left_mono) simp_all
  finally have U2: "qd * (b ^ 2 * M) \<le> a ^ 6 * W" by (simp add: eval_nat_numeral mult.assoc)
  have "q * (b ^ 2 * M) \<le> (a * (qd * 100)) * (b ^ 2 * M)"
    using q_rel(2) b M by (intro mult_right_mono) simp_all
  also have "\<dots> = (100 * a) * (qd * (b ^ 2 * M))" by (simp add: mult.assoc mult.left_commute)
  also have "\<dots> \<le> (100 * a) * (a ^ 6 * W)" using U2 a by (intro mult_left_mono) simp_all
  also have "\<dots> = a ^ 7 * (100 * W)" by (simp add: eval_nat_numeral mult.assoc mult.left_commute)
  also have "\<dots> \<le> (201 / 200 * b ^ 2) * (100 * W)"
    using ulp_upper W unfolding a_def b_def by (intro mult_right_mono) simp_all
  finally have "q * (b ^ 2 * M) \<le> (201 / 200 * (100 * W)) * b ^ 2"
    by (simp add: mult.assoc mult.left_commute mult.commute)
  then have "(q * M) * b ^ 2 \<le> (201 / 200 * (100 * W)) * b ^ 2"
    by (simp add: mult.assoc mult.left_commute mult.commute)
  then have U4: "q * M \<le> 201 / 200 * (100 * W)"
    using b by (simp only: mult_le_cancel_right, (simp add: not_less)?)
  \<comment> \<open>the lower bound\<close>
  have "d * mp \<le> d * (a ^ 2 * M)" using mpU d by (rule mult_left_mono)
  with dmp wtL have L1: "b ^ 5 * W \<le> d * (a ^ 2 * M)" by simp
  have "b * (b ^ 5 * W) \<le> b * (d * (a ^ 2 * M))"
    using L1 b by (intro mult_left_mono) simp_all
  also have "\<dots> = (b * d) * (a ^ 2 * M)" by (simp add: mult.assoc)
  also have "\<dots> \<le> qd * (a ^ 2 * M)"
    using qd_rel(1) a M by (intro mult_right_mono) simp_all
  finally have L2: "b ^ 6 * W \<le> qd * (a ^ 2 * M)" by (simp add: eval_nat_numeral mult.assoc)
  have "(100 * b) * (b ^ 6 * W) \<le> (100 * b) * (qd * (a ^ 2 * M))"
    using L2 b by (intro mult_left_mono) simp_all
  also have "\<dots> = (b * (qd * 100)) * (a ^ 2 * M)" by (simp add: mult.assoc mult.left_commute)
  also have "\<dots> \<le> q * (a ^ 2 * M)"
    using q_rel(1) a M by (intro mult_right_mono) simp_all
  finally have "b ^ 7 * (100 * W) \<le> q * (a ^ 2 * M)"
    by (simp add: eval_nat_numeral mult.assoc mult.left_commute)
  moreover have "(199 / 200 * a ^ 2) * (100 * W) \<le> b ^ 7 * (100 * W)"
    using ulp_lower W unfolding a_def b_def by (intro mult_right_mono) simp_all
  ultimately have "(199 / 200 * a ^ 2) * (100 * W) \<le> q * (a ^ 2 * M)" by linarith
  then have "(199 / 200 * (100 * W)) * a ^ 2 \<le> (q * M) * a ^ 2"
    by (simp add: mult.assoc mult.left_commute mult.commute)
  then have L4: "199 / 200 * (100 * W) \<le> q * M"
    using a by (simp only: mult_le_cancel_right, (simp add: not_less)?)
  \<comment> \<open>together\<close>
  define Q where "Q = 100 * W / M"
  have QM: "Q * M = 100 * W" using M by (simp add: Q_def)
  have Q100: "Q \<le> 100" using WM M by (simp add: Q_def field_simps)
  have Q0: "0 \<le> Q" using W M by (simp add: Q_def)
  from U4 QM have "q * M \<le> (201 / 200 * Q) * M" by simp
  then have qU: "q \<le> 201 / 200 * Q" using M by (simp only: mult_le_cancel_right, (simp add: not_less)?)
  from L4 QM have "(199 / 200 * Q) * M \<le> q * M" by simp
  then have qL: "199 / 200 * Q \<le> q" using M by (simp only: mult_le_cancel_right, (simp add: not_less)?)
  from qU qL Q100 Q0 have "q - Q \<le> 1 / 2" "Q - q \<le> 1 / 2" by linarith+
  then have "\<bar>q - Q\<bar> \<le> 1 / 2" by (simp only: abs_le_iff) simp
  then show "\<bar>fmul (fdiv wt mp) 100 - 100 * W / M\<bar> \<le> 1 / 2"
    by (simp add: q_def qd_def Q_def)
qed

section \<open>Facts about the monitor loop\<close>

text \<open>
  The loop of \<open>evaluateMonitor\<close> counts the matching items, and the loop of
  \<open>checkMonitors\<close> appends one alert for each monitor that fires, in order, and changes
  those monitors only.
\<close>

lemma countMatches_eq:
  "countMatches q news n = n + length (filter (\<lambda>item. includesSub (itemText item) q) news)"
  by (induction news arbitrary: n) auto

lemma matchRatio_eq:
  "matchRatio m news = divideCounts (matching (mon_query m) news) (max (length news) 1)"
  by (simp add: matchRatio_def matching_def countMatches_eq includesSub_iff_sublist itemText_def)

lemma matchRatio_finite: "\<exists>r. matchRatio m news = Num r"
  by (simp add: matchRatio_def divideCounts_def)

lemma checkLoop_alerts:
  "checkLoop w news ms s n = (ms', s', n') \<Longrightarrow>
   \<exists>raised. alerts s' = alerts s @ raised
     \<and> map alert_monitorId raised = map (\<lambda>m. Some (mon_id m)) (filter (fires news) ms)
     \<and> n' = n + length raised"
proof (induction ms arbitrary: s n ms' s' n')
  case Nil
  then show ?case by simp
next
  case (Cons m ms)
  show ?case
  proof (cases "fires news m")
    case True
    let ?s1 = "s\<lparr>alerts := alerts s @ [newAlert w s m],
                     randomCalls := randomCalls s + 1,
                     dateReads := dateReads s + 2\<rparr>"
    obtain ms1 where r: "checkLoop w news ms ?s1 (n + 1) = (ms1, s', n')"
      using Cons.prems True by (auto simp: fires_def split: prod.splits)
    from Cons.IH[OF r] obtain raised where
      "alerts s' = alerts ?s1 @ raised"
      "map alert_monitorId raised = map (\<lambda>m. Some (mon_id m)) (filter (fires news) ms)"
      "n' = n + 1 + length raised" by auto
    then show ?thesis using True
      by (intro exI[of _ "newAlert w s m # raised"]) (simp add: newAlert_def)
  next
    case False
    obtain ms1 where r: "checkLoop w news ms s n = (ms1, s', n')"
      using Cons.prems False by (auto simp: fires_def split: prod.splits if_splits)
    from Cons.IH[OF r] show ?thesis using False by simp
  qed
qed

lemma checkLoop_monitors:
  "checkLoop w news ms s n = (ms', s', n') \<Longrightarrow>
   list_all2 (\<lambda>m m'. if fires news m
                      then m' = m\<lparr>alertCount := fadd (alertCount m) 1, lastChecked := lastChecked m'\<rparr>
                           \<and> (\<exists>k. lastChecked m' = dateNow w k)
                      else m' = m) ms ms'"
proof (induction ms arbitrary: s n ms' s' n')
  case Nil
  then show ?case by simp
next
  case (Cons m ms)
  show ?case
  proof (cases "fires news m")
    case True
    let ?s1 = "s\<lparr>alerts := alerts s @ [newAlert w s m],
                     randomCalls := randomCalls s + 1,
                     dateReads := dateReads s + 2\<rparr>"
    obtain ms1 where r: "checkLoop w news ms ?s1 (n + 1) = (ms1, s', n')"
      and e: "ms' = triggered w s m # ms1"
      using Cons.prems True by (auto simp: fires_def split: prod.splits)
    from Cons.IH[OF r] show ?thesis using True e
      by (auto simp: triggered_def)
  next
    case False
    obtain ms1 where r: "checkLoop w news ms s n = (ms1, s', n')" and e: "ms' = m # ms1"
      using Cons.prems False by (auto simp: fires_def split: prod.splits if_splits)
    from Cons.IH[OF r] show ?thesis using False e by simp
  qed
qed

lemma checkLoop_quiet:
  "\<forall>m\<in>set ms. \<not> fires news m \<Longrightarrow> checkLoop w news ms s n = (ms, s, n)"
  by (induction ms) (auto simp: fires_def)

lemma checkMonitors_run:
  assumes "checkMonitors w news s = (msg, s')"
  obtains ms' s1 n where
    "checkLoop w news (activeMonitors s) s 0 = (ms', s1, n)"
    "activeMonitors s' = ms'" "alerts s' = alerts s1"
proof (cases "activeMonitors s = []")
  case True
  then have "s' = s" using assms by (simp add: checkMonitors_def)
  with True that[of "[]" s 0] show ?thesis by simp
next
  case False
  obtain ms' s1 n where r: "checkLoop w news (activeMonitors s) s 0 = (ms', s1, n)"
    by (metis prod_cases3)
  with False assms have "s' = s1\<lparr>activeMonitors := ms'\<rparr>"
    by (simp add: checkMonitors_def)
  with r that show ?thesis by simp
qed

lemma checkLoop_fire:
  "fires news m \<Longrightarrow>
   checkLoop w news (m # ms) s n =
     (triggered w s m #
        fst (checkLoop w news ms
               (s\<lparr>alerts := alerts s @ [newAlert w s m],
                  randomCalls := randomCalls s + 1,
                  dateReads := dateReads s + 2\<rparr>) (n + 1)),
      snd (checkLoop w news ms
             (s\<lparr>alerts := alerts s @ [newAlert w s m],
                randomCalls := randomCalls s + 1,
                dateReads := dateReads s + 2\<rparr>) (n + 1)))"
  by (simp add: fires_def split: prod.splits)

lemma checkLoop_pass:
  "\<not> fires news m \<Longrightarrow>
   checkLoop w news (m # ms) s n =
     (m # fst (checkLoop w news ms s n), snd (checkLoop w news ms s n))"
  by (auto simp: fires_def split: prod.splits)

lemma checkLoop_cong:
  fixes s :: "'a AnalysisModule" and t :: "'b AnalysisModule"
  assumes "alerts s = alerts t" "randomCalls s = randomCalls t" "dateReads s = dateReads t"
  shows "fst (checkLoop w news ms s n) = fst (checkLoop w news ms t n)
    \<and> alerts (fst (snd (checkLoop w news ms s n))) = alerts (fst (snd (checkLoop w news ms t n)))
    \<and> snd (snd (checkLoop w news ms s n)) = snd (snd (checkLoop w news ms t n))"
  using assms
proof (induction ms arbitrary: s t n)
  case Nil
  then show ?case by simp
next
  case (Cons m ms)
  show ?case
  proof (cases "fires news m")
    case True
    let ?s1 = "s\<lparr>alerts := alerts s @ [newAlert w s m],
                     randomCalls := randomCalls s + 1, dateReads := dateReads s + 2\<rparr>"
    let ?t1 = "t\<lparr>alerts := alerts t @ [newAlert w t m],
                     randomCalls := randomCalls t + 1, dateReads := dateReads t + 2\<rparr>"
    have "alerts ?s1 = alerts ?t1" "randomCalls ?s1 = randomCalls ?t1"
      "dateReads ?s1 = dateReads ?t1"
      using Cons.prems by (simp_all add: newAlert_def)
    from Cons.IH[OF this, of "n + 1"] show ?thesis
      using True Cons.prems by (simp add: checkLoop_fire triggered_def del: checkLoop.simps)
  next
    case False
    from Cons.IH[OF Cons.prems, of n] show ?thesis
      using False by (simp add: checkLoop_pass del: checkLoop.simps)
  qed
qed

lemma checkLoop_relabel:
  assumes "\<And>m. isActive (g m) = isActive m"
    and "\<And>m. evaluateMonitor (g m) news = evaluateMonitor m news"
    and "\<And>(s :: 'res AnalysisModule) m. newAlert w s (g m) = newAlert w s m"
  shows "snd (checkLoop w news (map g ms) (s :: 'res AnalysisModule) n)
           = snd (checkLoop w news ms s n)"
proof (induction ms arbitrary: s n)
  case Nil
  show ?case by simp
next
  case (Cons m ms)
  have f: "fires news (g m) = fires news m"
    by (simp add: fires_def assms)
  show ?case
  proof (cases "fires news m")
    case True
    with f have "fires news (g m)" by simp
    then show ?thesis
      using True Cons.IH by (simp add: checkLoop_fire assms del: checkLoop.simps)
  next
    case False
    with f have "\<not> fires news (g m)" by simp
    then show ?thesis
      using False Cons.IH by (simp add: checkLoop_pass del: checkLoop.simps)
  qed
qed

lemma evaluateMonitor_interval:
  "evaluateMonitor (m\<lparr>checkInterval := c, lastChecked := t\<rparr>) news = evaluateMonitor m news"
  by (simp add: evaluateMonitor_def matchRatio_def)

lemma checkMonitors_alerts_loop:
  "alerts (snd (checkMonitors w news s)) = alerts (fst (snd (checkLoop w news (activeMonitors s) s 0)))"
  by (cases "activeMonitors s = []") (auto simp: checkMonitors_def split: prod.splits)

lemma checkMonitors_interval:
  "alerts (snd (checkMonitors w news
      (s\<lparr>activeMonitors := map (\<lambda>m. m\<lparr>checkInterval := ci m, lastChecked := lc m\<rparr>) (activeMonitors s)\<rparr>)))
   = alerts (snd (checkMonitors w news s))"
proof -
  let ?g = "\<lambda>m. m\<lparr>checkInterval := ci m, lastChecked := lc m\<rparr>"
  let ?t = "s\<lparr>activeMonitors := map ?g (activeMonitors s)\<rparr>"
  have "alerts (fst (snd (checkLoop w news (map ?g (activeMonitors s)) ?t 0)))
        = alerts (fst (snd (checkLoop w news (map ?g (activeMonitors s)) s 0)))"
    using checkLoop_cong[of ?t s w news "map ?g (activeMonitors s)" 0] by simp
  also have "snd (checkLoop w news (map ?g (activeMonitors s)) s 0)
        = snd (checkLoop w news (activeMonitors s) s 0)"
    by (rule checkLoop_relabel) (simp_all add: evaluateMonitor_interval newAlert_def)
  finally show ?thesis
    by (simp add: checkMonitors_alerts_loop)
qed

section \<open>Monitor evaluation\<close>

lemma exBatch_length: "length exBatch = 10"
  by (simp add: exBatch_def)

lemma exBatch_matching: "matching ''Bitcoin'' exBatch = 8"
  by (simp add: matching_def includesSub_iff_sublist [symmetric] exBatch_def exItem_def
        lower_eval)

lemma exBatch_matching_other: "matching ''Ethereum'' exBatch = 1"
  by (simp add: matching_def includesSub_iff_sublist [symmetric] exBatch_def exItem_def
        lower_eval)

lemma threshold_07_low: "\<not> fl (7 / 10) \<le> fdiv 1 10"
  by code_simp

lemma exMonitor_fires: "evaluateMonitor (exMonitor (fl (7 / 10))) exBatch"
  using exBatch_matching exBatch_length threshold_07
  by (simp add: evaluateMonitor_def matchRatio_eq divideCounts_def exMonitor_def)

lemma exMonitorFull_fires: "evaluateMonitor exMonitorFull exBatch"
  using exBatch_matching exBatch_length threshold_07
  by (simp add: evaluateMonitor_def matchRatio_eq divideCounts_def exMonitorFull_def)

lemma exMonitorC_quiet: "\<not> evaluateMonitor exMonitorC exBatch"
  using exBatch_matching_other exBatch_length threshold_07_low
  by (simp add: evaluateMonitor_def matchRatio_eq divideCounts_def exMonitorC_def)

lemma exMonitorB_would_fire: "evaluateMonitor exMonitorB exBatch"
proof -
  obtain r where r: "matchRatio exMonitorB exBatch = Num (fl r)" and "0 \<le> r"
    by (simp add: matchRatio_def divideCounts_def fdiv_def exBatch_def)
  then show ?thesis using fl_nonneg[of r]
    by (simp add: evaluateMonitor_def exMonitorB_def)
qed

text \<open>
  The claim C1 as it is written fails in two places. It speaks of every monitor, but a
  monitor that is not active is skipped even when its ratio reaches its threshold: no
  alert, no change. And \<open>alertCount++\<close> is an addition in binary64: at \<open>2^53\<close> the count
  stays where it is.
\<close>

theorem C1_every_monitor_counterexample:
  "\<not> isActive exMonitorB
   \<and> geq (matchRatio exMonitorB exBatch) (alertThreshold exMonitorB)
   \<and> snd (checkMonitors exWorld exBatch (exModule [exMonitorB] :: unit AnalysisModule))
       = exModule [exMonitorB]
   \<and> isActive exMonitorFull
   \<and> geq (matchRatio exMonitorFull exBatch) (alertThreshold exMonitorFull)
   \<and> map alertCount (activeMonitors (snd (checkMonitors exWorld exBatch
         (exModule [exMonitorFull] :: unit AnalysisModule))))
       = [alertCount exMonitorFull]"
proof -
  have a: "\<not> isActive exMonitorB" by (simp add: exMonitorB_def)
  have b: "geq (matchRatio exMonitorB exBatch) (alertThreshold exMonitorB)"
    using exMonitorB_would_fire by (simp add: evaluateMonitor_def)
  have c: "snd (checkMonitors exWorld exBatch (exModule [exMonitorB] :: unit AnalysisModule))
       = exModule [exMonitorB]"
    using a by (simp add: checkMonitors_def exModule_def)
  have d: "isActive exMonitorFull" by (simp add: exMonitorFull_def)
  have e: "geq (matchRatio exMonitorFull exBatch) (alertThreshold exMonitorFull)"
    using exMonitorFull_fires by (simp add: evaluateMonitor_def)
  have "activeMonitors (snd (checkMonitors exWorld exBatch
         (exModule [exMonitorFull] :: unit AnalysisModule)))
       = [triggered exWorld (exModule [exMonitorFull] :: unit AnalysisModule) exMonitorFull]"
    using exMonitorFull_fires d by (simp add: checkMonitors_def exModule_def)
  then have f: "map alertCount (activeMonitors (snd (checkMonitors exWorld exBatch
         (exModule [exMonitorFull] :: unit AnalysisModule))))
       = [alertCount exMonitorFull]"
    using increment_stuck by (simp add: triggered_def exMonitorFull_def)
  from a b c d e f show ?thesis by (intro conjI)
qed

text \<open>
  Claim C1, amended. Monitor evaluation computes the match ratio as the number of items
  whose text (title, a space, description) contains the monitor's query, both in lower
  case, divided by \<open>max(batch size, 1)\<close>. In a check, an active monitor gets one added
  to its \<open>alertCount\<close> in binary64, which is exactly one more for a count below \<open>2^53\<close>,
  and its \<open>lastChecked\<close> set to a reading of the clock when the ratio is greater than or
  equal to its \<open>alertThreshold\<close>, and stays as it is otherwise; the alerts added to the
  log are exactly one per such monitor, in order, each naming its monitor. In particular
  a batch of 10 items of which 8 match raises one alert with threshold 0.7 and none
  with threshold 0.9.
\<close>

theorem C1_monitor_evaluation:
  assumes "checkMonitors w news s = (msg, s')"
  shows
    "(\<forall>m. matchRatio m news = divideCounts (matching (mon_query m) news) (max (length news) 1)
          \<and> evaluateMonitor m news = geq (matchRatio m news) (alertThreshold m))
     \<and> list_all2
          (\<lambda>m m'. isActive m \<longrightarrow>
             (if geq (matchRatio m news) (alertThreshold m)
              then m' = m\<lparr>alertCount := fadd (alertCount m) 1, lastChecked := lastChecked m'\<rparr>
                   \<and> (\<exists>k. lastChecked m' = dateNow w k)
                   \<and> (\<forall>c. alertCount m = of_nat c \<and> c < 2 ^ 53 \<longrightarrow>
                          alertCount m' = alertCount m + 1)
              else m' = m))
          (activeMonitors s) (activeMonitors s')
     \<and> (\<exists>raised. alerts s' = alerts s @ raised
           \<and> map alert_monitorId raised =
               map (\<lambda>m. Some (mon_id m))
                 (filter (\<lambda>m. isActive m \<and> geq (matchRatio m news) (alertThreshold m))
                    (activeMonitors s)))
     \<and> (length news = 10 \<and> matching (mon_query m) news = 8 \<and> isActive m
          \<and> activeMonitors s = [m] \<and> alertCount m = of_nat c \<and> c < 2 ^ 53 \<longrightarrow>
          (alertThreshold m = fl (7 / 10) \<longrightarrow>
             (\<exists>a. alerts s' = alerts s @ [a] \<and> alert_monitorId a = Some (mon_id m))
             \<and> map alertCount (activeMonitors s') = [alertCount m + 1])
          \<and> (alertThreshold m = fl (9 / 10) \<longrightarrow>
             alerts s' = alerts s \<and> activeMonitors s' = [m]))"
proof -
  obtain ms' s1 n where loop: "checkLoop w news (activeMonitors s) s 0 = (ms', s1, n)"
    and ms': "activeMonitors s' = ms'" and al: "alerts s' = alerts s1"
    using assms by (rule checkMonitors_run)
  have fires_eq: "fires news = (\<lambda>m. isActive m \<and> geq (matchRatio m news) (alertThreshold m))"
    by (auto simp: fires_def evaluateMonitor_def)
  have A: "\<forall>m. matchRatio m news = divideCounts (matching (mon_query m) news) (max (length news) 1)
          \<and> evaluateMonitor m news = geq (matchRatio m news) (alertThreshold m)"
    by (simp add: matchRatio_eq evaluateMonitor_def)
  have B: "list_all2
          (\<lambda>m m'. isActive m \<longrightarrow>
             (if geq (matchRatio m news) (alertThreshold m)
              then m' = m\<lparr>alertCount := fadd (alertCount m) 1, lastChecked := lastChecked m'\<rparr>
                   \<and> (\<exists>k. lastChecked m' = dateNow w k)
                   \<and> (\<forall>c. alertCount m = of_nat c \<and> c < 2 ^ 53 \<longrightarrow>
                          alertCount m' = alertCount m + 1)
              else m' = m))
          (activeMonitors s) (activeMonitors s')"
    using checkLoop_monitors[OF loop] unfolding ms'
  proof (rule list_all2_mono)
    fix m m'
    assume h: "if fires news m
          then m' = m\<lparr>alertCount := fadd (alertCount m) 1, lastChecked := lastChecked m'\<rparr>
               \<and> (\<exists>k. lastChecked m' = dateNow w k)
          else m' = m"
    show "isActive m \<longrightarrow>
             (if geq (matchRatio m news) (alertThreshold m)
              then m' = m\<lparr>alertCount := fadd (alertCount m) 1, lastChecked := lastChecked m'\<rparr>
                   \<and> (\<exists>k. lastChecked m' = dateNow w k)
                   \<and> (\<forall>c. alertCount m = of_nat c \<and> c < 2 ^ 53 \<longrightarrow>
                          alertCount m' = alertCount m + 1)
              else m' = m)"
    proof (intro impI)
      assume act: "isActive m"
      show "if geq (matchRatio m news) (alertThreshold m)
              then m' = m\<lparr>alertCount := fadd (alertCount m) 1, lastChecked := lastChecked m'\<rparr>
                   \<and> (\<exists>k. lastChecked m' = dateNow w k)
                   \<and> (\<forall>c. alertCount m = of_nat c \<and> c < 2 ^ 53 \<longrightarrow>
                          alertCount m' = alertCount m + 1)
              else m' = m"
      proof (cases "geq (matchRatio m news) (alertThreshold m)")
        case True
        with act h have e: "m' = m\<lparr>alertCount := fadd (alertCount m) 1, lastChecked := lastChecked m'\<rparr>"
          and k: "\<exists>k. lastChecked m' = dateNow w k"
          by (simp_all add: fires_eq)
        from e have ac: "alertCount m' = fadd (alertCount m) 1"
          by (metis Monitor.select_convs(8) Monitor.surjective Monitor.update_convs(4)
              Monitor.update_convs(8))
        have "\<forall>c. alertCount m = of_nat c \<and> c < 2 ^ 53 \<longrightarrow> alertCount m' = alertCount m + 1"
          using ac increment_exact by auto
        with True e k show ?thesis by simp
      next
        case False
        with act h show ?thesis by (simp add: fires_eq)
      qed
    qed
  qed
  have C: "\<exists>raised. alerts s' = alerts s @ raised
           \<and> map alert_monitorId raised =
               map (\<lambda>m. Some (mon_id m))
                 (filter (\<lambda>m. isActive m \<and> geq (matchRatio m news) (alertThreshold m))
                    (activeMonitors s))"
    using checkLoop_alerts[OF loop] unfolding al fires_eq by blast
  have D: "(alertThreshold m = fl (7 / 10) \<longrightarrow>
             (\<exists>a. alerts s' = alerts s @ [a] \<and> alert_monitorId a = Some (mon_id m))
             \<and> map alertCount (activeMonitors s') = [alertCount m + 1])
          \<and> (alertThreshold m = fl (9 / 10) \<longrightarrow>
             alerts s' = alerts s \<and> activeMonitors s' = [m])"
    if h: "length news = 10 \<and> matching (mon_query m) news = 8 \<and> isActive m
          \<and> activeMonitors s = [m] \<and> alertCount m = of_nat c \<and> c < 2 ^ 53"
  proof -
    have ratio: "matchRatio m news = Num (fdiv 8 10)"
      using h by (simp add: matchRatio_eq divideCounts_def)
    show ?thesis
    proof (intro conjI impI)
      assume t: "alertThreshold m = fl (7 / 10)"
      then have g: "geq (matchRatio m news) (alertThreshold m)"
        using ratio threshold_07 by simp
      from C obtain raised where r: "alerts s' = alerts s @ raised"
        "map alert_monitorId raised = [Some (mon_id m)]"
        using h g by auto
      then obtain a where "raised = [a]" by (cases raised) auto
      with r show "\<exists>a. alerts s' = alerts s @ [a] \<and> alert_monitorId a = Some (mon_id m)"
        by auto
      from B h g obtain m' where m': "activeMonitors s' = [m']"
        and inc: "\<forall>c. alertCount m = of_nat c \<and> c < 2 ^ 53 \<longrightarrow> alertCount m' = alertCount m + 1"
        by (auto simp: list_all2_Cons1)
      from inc h have "alertCount m' = alertCount m + 1" by blast
      with m' show "map alertCount (activeMonitors s') = [alertCount m + 1]" by simp
    next
      assume t: "alertThreshold m = fl (9 / 10)"
      then have g: "\<not> geq (matchRatio m news) (alertThreshold m)"
        using ratio threshold_09 by simp
      from C h g show "alerts s' = alerts s" by auto
      from B h g show "activeMonitors s' = [m]" by (auto simp: list_all2_Cons1)
    qed
  qed
  from A B C D show ?thesis by blast
qed

theorem C1_monitor_evaluation_witness:
  "length exBatch = 10 \<and> matching ''Bitcoin'' exBatch = 8
   \<and> (\<exists>a. alerts (snd (checkMonitors exWorld exBatch
               (exModule [exMonitor (fl (7 / 10))] :: unit AnalysisModule))) = [a]
          \<and> alert_monitorId a = Some ''q7w1e5r9'')
   \<and> map alertCount (activeMonitors (snd (checkMonitors exWorld exBatch
               (exModule [exMonitor (fl (7 / 10))] :: unit AnalysisModule)))) = [1]
   \<and> alerts (snd (checkMonitors exWorld exBatch
               (exModule [exMonitor (fl (9 / 10))] :: unit AnalysisModule))) = []"
proof -
  let ?s7 = "exModule [exMonitor (fl (7 / 10))] :: unit AnalysisModule"
  let ?s9 = "exModule [exMonitor (fl (9 / 10))] :: unit AnalysisModule"
  have r7: "checkMonitors exWorld exBatch ?s7
              = (fst (checkMonitors exWorld exBatch ?s7), snd (checkMonitors exWorld exBatch ?s7))"
    by simp
  have r9: "checkMonitors exWorld exBatch ?s9
              = (fst (checkMonitors exWorld exBatch ?s9), snd (checkMonitors exWorld exBatch ?s9))"
    by simp
  have h7: "length exBatch = 10 \<and> matching (mon_query (exMonitor (fl (7 / 10)))) exBatch = 8
      \<and> isActive (exMonitor (fl (7 / 10))) \<and> activeMonitors ?s7 = [exMonitor (fl (7 / 10))]
      \<and> alertCount (exMonitor (fl (7 / 10))) = of_nat 0 \<and> (0 :: nat) < 2 ^ 53"
    using exBatch_length exBatch_matching by (simp add: exMonitor_def exModule_def)
  have h9: "length exBatch = 10 \<and> matching (mon_query (exMonitor (fl (9 / 10)))) exBatch = 8
      \<and> isActive (exMonitor (fl (9 / 10))) \<and> activeMonitors ?s9 = [exMonitor (fl (9 / 10))]
      \<and> alertCount (exMonitor (fl (9 / 10))) = of_nat 0 \<and> (0 :: nat) < 2 ^ 53"
    using exBatch_length exBatch_matching by (simp add: exMonitor_def exModule_def)
  have t7: "alertThreshold (exMonitor (fl (7 / 10))) = fl (7 / 10)"
    and t9: "alertThreshold (exMonitor (fl (9 / 10))) = fl (9 / 10)"
    and i7: "mon_id (exMonitor (fl (7 / 10))) = ''q7w1e5r9''"
    and c7: "alertCount (exMonitor (fl (7 / 10))) = 0"
    and a7: "alerts ?s7 = []" and a9: "alerts ?s9 = []"
    by (simp_all add: exMonitor_def exModule_def)
  from C1_monitor_evaluation[OF r7, of "exMonitor (fl (7 / 10))" 0] h7 t7
  have p7: "(\<exists>a. alerts (snd (checkMonitors exWorld exBatch ?s7)) = alerts ?s7 @ [a]
               \<and> alert_monitorId a = Some (mon_id (exMonitor (fl (7 / 10)))))
        \<and> map alertCount (activeMonitors (snd (checkMonitors exWorld exBatch ?s7)))
            = [alertCount (exMonitor (fl (7 / 10))) + 1]"
    by blast
  from C1_monitor_evaluation[OF r9, of "exMonitor (fl (9 / 10))" 0] h9 t9
  have p9: "alerts (snd (checkMonitors exWorld exBatch ?s9)) = alerts ?s9"
    by blast
  from p7 p9 show ?thesis
    unfolding i7 c7 a7 a9 using exBatch_length exBatch_matching by simp
qed

section \<open>Which monitors a check evaluates\<close>

text \<open>
  Claim C5. A check evaluates every active monitor against the batch, whatever its
  \<open>checkInterval\<close> and \<open>lastChecked\<close>: an active monitor is changed exactly when its
  evaluation of the batch says so, the evaluation does not depend on the two fields, and
  the alerts of a check stay the same when the two fields of every monitor are changed
  at will. A monitor that is not active is left as it is and raises no alert: the
  alerts added are one per active monitor whose evaluation says so.
\<close>

theorem C5_active_monitors_only:
  assumes "checkMonitors w news s = (msg, s')"
  shows
    "list_all2
       (\<lambda>m m'. (\<not> isActive m \<longrightarrow> m' = m)
              \<and> (isActive m \<longrightarrow>
                   (if evaluateMonitor m news
                    then m' = m\<lparr>alertCount := fadd (alertCount m) 1, lastChecked := lastChecked m'\<rparr>
                    else m' = m)))
       (activeMonitors s) (activeMonitors s')
     \<and> (\<exists>raised. alerts s' = alerts s @ raised
           \<and> map alert_monitorId raised =
               map (\<lambda>m. Some (mon_id m))
                 (filter (\<lambda>m. isActive m \<and> evaluateMonitor m news) (activeMonitors s)))
     \<and> (\<forall>m c t. evaluateMonitor (m\<lparr>checkInterval := c, lastChecked := t\<rparr>) news
                  = evaluateMonitor m news)
     \<and> (\<forall>ci lc.
           alerts (snd (checkMonitors w news
             (s\<lparr>activeMonitors :=
                  map (\<lambda>m. m\<lparr>checkInterval := ci m, lastChecked := lc m\<rparr>) (activeMonitors s)\<rparr>)))
           = alerts s')"
proof -
  obtain ms' s1 n where loop: "checkLoop w news (activeMonitors s) s 0 = (ms', s1, n)"
    and ms': "activeMonitors s' = ms'" and al: "alerts s' = alerts s1"
    using assms by (rule checkMonitors_run)
  have fires_eq: "fires news = (\<lambda>m. isActive m \<and> evaluateMonitor m news)"
    by (auto simp: fires_def)
  have A: "list_all2
       (\<lambda>m m'. (\<not> isActive m \<longrightarrow> m' = m)
              \<and> (isActive m \<longrightarrow>
                   (if evaluateMonitor m news
                    then m' = m\<lparr>alertCount := fadd (alertCount m) 1, lastChecked := lastChecked m'\<rparr>
                    else m' = m)))
       (activeMonitors s) (activeMonitors s')"
    using checkLoop_monitors[OF loop] unfolding ms'
    by (rule list_all2_mono) (auto simp: fires_eq split: if_splits)
  have B: "\<exists>raised. alerts s' = alerts s @ raised
           \<and> map alert_monitorId raised =
               map (\<lambda>m. Some (mon_id m))
                 (filter (\<lambda>m. isActive m \<and> evaluateMonitor m news) (activeMonitors s))"
    using checkLoop_alerts[OF loop] unfolding al fires_eq by blast
  have D: "alerts (snd (checkMonitors w news
             (s\<lparr>activeMonitors :=
                  map (\<lambda>m. m\<lparr>checkInterval := ci m, lastChecked := lc m\<rparr>) (activeMonitors s)\<rparr>)))
           = alerts s'" for ci lc
    using checkMonitors_interval[where w = w and news = news and s = s and ci = ci and lc = lc] assms
    by simp
  from A B D show ?thesis
    by (simp add: evaluateMonitor_interval)
qed

theorem C5_active_monitors_only_witness:
  "isActive (exMonitor (fl (7 / 10))) \<and> evaluateMonitor (exMonitor (fl (7 / 10))) exBatch
   \<and> \<not> isActive exMonitorB \<and> evaluateMonitor exMonitorB exBatch
   \<and> isActive exMonitorC \<and> \<not> evaluateMonitor exMonitorC exBatch
   \<and> map alert_monitorId (alerts (snd (checkMonitors exWorld exBatch
         (exModule [exMonitor (fl (7 / 10)), exMonitorB, exMonitorC] :: unit AnalysisModule))))
       = [Some ''q7w1e5r9'']
   \<and> activeMonitors (snd (checkMonitors exWorld exBatch
         (exModule [exMonitor (fl (7 / 10)), exMonitorB, exMonitorC] :: unit AnalysisModule))) ! 1
       = exMonitorB
   \<and> activeMonitors (snd (checkMonitors exWorld exBatch
         (exModule [exMonitor (fl (7 / 10)), exMonitorB, exMonitorC] :: unit AnalysisModule))) ! 2
       = exMonitorC"
proof -
  let ?s = "exModule [exMonitor (fl (7 / 10)), exMonitorB, exMonitorC] :: unit AnalysisModule"
  let ?s' = "snd (checkMonitors exWorld exBatch ?s)"
  have r: "checkMonitors exWorld exBatch ?s = (fst (checkMonitors exWorld exBatch ?s), ?s')"
    by simp
  have a: "isActive (exMonitor (fl (7 / 10)))" "\<not> isActive exMonitorB" "isActive exMonitorC"
    by (simp_all add: exMonitor_def exMonitorB_def exMonitorC_def)
  have m: "activeMonitors ?s = [exMonitor (fl (7 / 10)), exMonitorB, exMonitorC]"
    "alerts ?s = []"
    by (simp_all add: exModule_def)
  note t = C5_active_monitors_only[OF r]
  from t obtain raised where
    "alerts ?s' = alerts ?s @ raised"
    "map alert_monitorId raised =
       map (\<lambda>m. Some (mon_id m))
         (filter (\<lambda>m. isActive m \<and> evaluateMonitor m exBatch) (activeMonitors ?s))"
    by blast
  then have al: "map alert_monitorId (alerts ?s') = [Some ''q7w1e5r9'']"
    using a exMonitor_fires exMonitorC_quiet by (simp add: m) (simp add: exMonitor_def)
  from t have "list_all2
       (\<lambda>m m'. (\<not> isActive m \<longrightarrow> m' = m)
              \<and> (isActive m \<longrightarrow>
                   (if evaluateMonitor m exBatch
                    then m' = m\<lparr>alertCount := fadd (alertCount m) 1, lastChecked := lastChecked m'\<rparr>
                    else m' = m)))
       (activeMonitors ?s) (activeMonitors ?s')"
    by blast
  then have "activeMonitors ?s' ! 1 = exMonitorB" "activeMonitors ?s' ! 2 = exMonitorC"
    using a exMonitorC_quiet by (auto simp: m list_all2_Cons1)
  with a al exMonitor_fires exMonitorB_would_fire exMonitorC_quiet show ?thesis by simp
qed

section \<open>The empty batch\<close>

text \<open>
  Claim C10. Monitor evaluation is total: the divisor of the match ratio is
  \<open>max(batch size, 1)\<close>, at least one, so the ratio is a finite number on every batch,
  never \<open>NaN\<close> or \<open>Infinity\<close>. On the empty batch it is \<open>0\<close>, so a monitor with a
  positive threshold does not alert, and a check of monitors with positive thresholds
  against the empty batch raises no alert and changes no monitor.
\<close>

theorem C10_empty_batch:
  "(\<exists>r. matchRatio m (news :: ('k, 'z) NewsItem_scheme list) = Num r)
   \<and> 1 \<le> max (length news) 1
   \<and> matchRatio m ([] :: ('k, 'z) NewsItem_scheme list) = Num 0
   \<and> (0 < alertThreshold m \<longrightarrow> \<not> evaluateMonitor m ([] :: ('k, 'z) NewsItem_scheme list))
   \<and> ((\<forall>m\<in>set (activeMonitors s). 0 < alertThreshold m) \<longrightarrow>
        alerts (snd (checkMonitors w ([] :: ('k, 'z) NewsItem_scheme list) s)) = alerts s
        \<and> activeMonitors (snd (checkMonitors w ([] :: ('k, 'z) NewsItem_scheme list) s))
            = activeMonitors s)"
proof -
  have r0: "matchRatio m' ([] :: ('k, 'z) NewsItem_scheme list) = Num 0" for m'
    by (simp add: matchRatio_def divideCounts_def fdiv_def fl_zero)
  have e0: "0 < alertThreshold m' \<Longrightarrow> \<not> evaluateMonitor m' ([] :: ('k, 'z) NewsItem_scheme list)" for m'
    by (simp add: evaluateMonitor_def r0)
  have q: "alerts (snd (checkMonitors w ([] :: ('k, 'z) NewsItem_scheme list) s)) = alerts s
        \<and> activeMonitors (snd (checkMonitors w ([] :: ('k, 'z) NewsItem_scheme list) s))
            = activeMonitors s"
    if "\<forall>m\<in>set (activeMonitors s). 0 < alertThreshold m"
  proof -
    from that have "\<forall>m\<in>set (activeMonitors s). \<not> fires ([] :: ('k, 'z) NewsItem_scheme list) m"
      using e0 by (auto simp: fires_def)
    then have "checkLoop w ([] :: ('k, 'z) NewsItem_scheme list) (activeMonitors s) s 0
                 = (activeMonitors s, s, 0)"
      by (rule checkLoop_quiet)
    then show ?thesis by (simp add: checkMonitors_def)
  qed
  show ?thesis using matchRatio_finite[of m news] r0 e0 q by simp
qed

theorem C10_empty_batch_witness:
  "matchRatio (exMonitor (fl (7 / 10))) ([] :: unit NewsItem list) = Num 0
   \<and> \<not> evaluateMonitor (exMonitor (fl (7 / 10))) ([] :: unit NewsItem list)
   \<and> alerts (snd (checkMonitors exWorld ([] :: unit NewsItem list)
        (exModule [exMonitor (fl (7 / 10))] :: unit AnalysisModule))) = []"
proof -
  let ?s = "exModule [exMonitor (fl (7 / 10))] :: unit AnalysisModule"
  have h1: "0 < alertThreshold (exMonitor (fl (7 / 10)))"
    using threshold_07_pos by (simp add: exMonitor_def)
  then have h2: "\<forall>m\<in>set (activeMonitors ?s). 0 < alertThreshold m"
    by (simp add: exModule_def)
  have h3: "alerts ?s = []" by (simp add: exModule_def)
  show ?thesis
    using C10_empty_batch[of "exMonitor (fl (7 / 10))" "[] :: unit NewsItem list" ?s exWorld] h1 h2 h3
    by simp
qed

section \<open>Removing a monitor\<close>

text \<open>
  Claim C4. For a monitor id that no monitor of the registry has, \<open>removeMonitor\<close>
  returns the message \<open>Monitor <id> not found.\<close> to the caller, throws nothing and leaves
  the module, its monitor list included, as it was. For an id that is present it
  returns \<open>Monitor <id> removed successfully.\<close> and the list loses the monitors with that
  id and nothing else, in particular exactly the one monitor when ids are distinct.
\<close>

theorem C4_removeMonitor:
  "(monitorId \<notin> mon_id ` set (activeMonitors s) \<longrightarrow>
      removeMonitor monitorId s = (''Monitor '' @ monitorId @ '' not found.'', s))
   \<and> (monitorId \<in> mon_id ` set (activeMonitors s) \<longrightarrow>
      removeMonitor monitorId s =
        (''Monitor '' @ monitorId @ '' removed successfully.'',
         s\<lparr>activeMonitors := filter (\<lambda>m. mon_id m \<noteq> monitorId) (activeMonitors s)\<rparr>))
   \<and> (activeMonitors s = pre @ [m] @ post \<and> mon_id m = monitorId
        \<and> monitorId \<notin> mon_id ` set (pre @ post) \<longrightarrow>
      activeMonitors (snd (removeMonitor monitorId s)) = pre @ post)"
proof (intro conjI impI)
  assume a: "monitorId \<notin> mon_id ` set (activeMonitors s)"
  then have "filter (\<lambda>m. mon_id m \<noteq> monitorId) (activeMonitors s) = activeMonitors s"
    by (auto simp: filter_id_conv)
  then show "removeMonitor monitorId s = (''Monitor '' @ monitorId @ '' not found.'', s)"
    by (simp add: removeMonitor_def Let_def)
next
  assume a: "monitorId \<in> mon_id ` set (activeMonitors s)"
  then have "length (filter (\<lambda>m. mon_id m \<noteq> monitorId) (activeMonitors s))
               < length (activeMonitors s)"
    by (auto intro!: length_filter_less)
  then show "removeMonitor monitorId s =
        (''Monitor '' @ monitorId @ '' removed successfully.'',
         s\<lparr>activeMonitors := filter (\<lambda>m. mon_id m \<noteq> monitorId) (activeMonitors s)\<rparr>)"
    by (simp add: removeMonitor_def Let_def)
next
  assume a: "activeMonitors s = pre @ [m] @ post \<and> mon_id m = monitorId
        \<and> monitorId \<notin> mon_id ` set (pre @ post)"
  then have n: "monitorId \<notin> mon_id ` set pre" "monitorId \<notin> mon_id ` set post"
    by auto
  have "filter (\<lambda>m. mon_id m \<noteq> monitorId) pre = pre"
    and "filter (\<lambda>m. mon_id m \<noteq> monitorId) post = post"
    using n by (auto simp: filter_id_conv)
  with a show "activeMonitors (snd (removeMonitor monitorId s)) = pre @ post"
    by (simp add: removeMonitor_def Let_def)
qed

theorem C4_removeMonitor_witness:
  "removeMonitor ''nosuchid''
       (exModule [exMonitor (fl (7 / 10)), exMonitorB] :: unit AnalysisModule)
     = (''Monitor nosuchid not found.'', exModule [exMonitor (fl (7 / 10)), exMonitorB])
   \<and> activeMonitors (snd (removeMonitor ''q7w1e5r9''
         (exModule [exMonitor (fl (7 / 10)), exMonitorB] :: unit AnalysisModule)))
     = [exMonitorB]"
proof -
  let ?s = "exModule [exMonitor (fl (7 / 10)), exMonitorB] :: unit AnalysisModule"
  have h1: "''nosuchid'' \<notin> mon_id ` set (activeMonitors ?s)"
    by (simp add: exModule_def exMonitor_def exMonitorB_def)
  have h2: "activeMonitors ?s = [] @ [exMonitor (fl (7 / 10))] @ [exMonitorB]
      \<and> mon_id (exMonitor (fl (7 / 10))) = ''q7w1e5r9''
      \<and> ''q7w1e5r9'' \<notin> mon_id ` set ([] @ [exMonitorB])"
    by (simp add: exModule_def exMonitor_def exMonitorB_def)
  show ?thesis
    using C4_removeMonitor[of "''nosuchid''" ?s "[]" "exMonitorB" "[]"]
      C4_removeMonitor[of "''q7w1e5r9''" ?s "[]" "exMonitor (fl (7 / 10))" "[exMonitorB]"] h1 h2
    by (simp add: exMonitorB_def)
qed

section \<open>The alert level of an item\<close>

lemma alertText_sublist:
  "sublist (alertText item) (toLowerCase (newsTitle item @ '' '' @ newsDescription item))"
proof -
  have t: "suffix (orElse (rss_title item) []) (newsTitle item)"
    by (cases "rss_title item") (auto simp: newsTitle_def)
  have d: "prefix (orElse (contentSnippet item) []) (newsDescription item)"
    by (cases "contentSnippet item") (auto simp: newsDescription_def)
  from t obtain a where a: "newsTitle item = a @ orElse (rss_title item) []"
    by (auto simp: suffix_def)
  from d obtain b where b: "newsDescription item = orElse (contentSnippet item) [] @ b"
    by (auto simp: prefix_def)
  have "toLowerCase (newsTitle item @ '' '' @ newsDescription item)
        = toLowerCase a @ alertText item @ toLowerCase b"
    by (simp add: a b alertText_def toLowerCase_def)
  then show ?thesis by (simp add: sublist_def) blast
qed

lemma alert_lists_in_table:
  "set (highAlertKeywords @ mediumAlertKeywords @ lowAlertKeywords)
     \<subseteq> set (ALERT_KEYWORDS Critical) \<union> set (ALERT_KEYWORDS Medium) \<union> set (ALERT_KEYWORDS Low)"
  by (simp add: highAlertKeywords_def mediumAlertKeywords_def lowAlertKeywords_def)

theorem C2_critical_counterexample:
  "anyKeyword (alertText exRss) (ALERT_KEYWORDS Critical)
   \<and> anyKeyword (alertText exRss) (ALERT_KEYWORDS Low)
   \<and> detectAlertLevel exRss = High
   \<and> detectAlertLevel exRss \<noteq> Critical"
  by (simp add: exRss_def alertText_def detectAlertLevel_def highAlertKeywords_def lower_eval)

text \<open>
  Claim C2, amended. The classifier has three tiers and never assigns \<open>critical\<close>. An
  item whose text (title, a space, content snippet, in lower case) contains a keyword
  of its high tier (crisis, attack, emergency, disaster, war) gets \<open>high\<close> even if
  keywords of lower tiers match too; the tiers are checked in descending order, high,
  medium, low, and the first one with a hit wins.
\<close>

theorem C2_tiers_descending:
  "((\<exists>k\<in>set highAlertKeywords. sublist k (alertText item)) \<longrightarrow> detectAlertLevel item = High)
   \<and> (\<not> (\<exists>k\<in>set highAlertKeywords. sublist k (alertText item))
        \<and> (\<exists>k\<in>set mediumAlertKeywords. sublist k (alertText item))
        \<longrightarrow> detectAlertLevel item = Medium)
   \<and> (\<not> (\<exists>k\<in>set highAlertKeywords. sublist k (alertText item))
        \<and> \<not> (\<exists>k\<in>set mediumAlertKeywords. sublist k (alertText item))
        \<and> (\<exists>k\<in>set lowAlertKeywords. sublist k (alertText item))
        \<longrightarrow> detectAlertLevel item = Low)
   \<and> detectAlertLevel item \<noteq> Critical"
  by (simp add: detectAlertLevel_def anyKeyword_iff Let_def)

theorem C2_tiers_descending_witness:
  "(\<exists>k\<in>set highAlertKeywords. sublist k (alertText exRss))
   \<and> (\<exists>k\<in>set lowAlertKeywords. sublist k (alertText exRss))
   \<and> detectAlertLevel exRss = High"
proof -
  have h: "\<exists>k\<in>set highAlertKeywords. sublist k (alertText exRss)"
    unfolding anyKeyword_iff [symmetric]
    by (simp add: exRss_def alertText_def highAlertKeywords_def lower_eval)
  have l: "\<exists>k\<in>set lowAlertKeywords. sublist k (alertText exRss)"
    unfolding anyKeyword_iff [symmetric]
    by (simp add: exRss_def alertText_def lowAlertKeywords_def lower_eval)
  from C2_tiers_descending[of exRss] h l show ?thesis by blast
qed

text \<open>
  Claim C3. An item whose text matches no alert keyword of any tier gets the alert
  level \<open>none\<close>. The text can be taken as the one the classifier reads (title, a space,
  content snippet) or as the title and the description of the news item built from the
  RSS item; the tiers as the three lists of the classifier or as the table
  \<open>ALERT_KEYWORDS\<close>, which contains them.
\<close>

theorem C3_no_match_none:
  "((\<forall>k\<in>set (highAlertKeywords @ mediumAlertKeywords @ lowAlertKeywords).
        \<not> sublist k (alertText item)) \<longrightarrow> detectAlertLevel item = NoLevel)
   \<and> ((\<forall>k\<in>set (highAlertKeywords @ mediumAlertKeywords @ lowAlertKeywords).
        \<not> sublist k (toLowerCase (newsTitle item @ '' '' @ newsDescription item)))
       \<longrightarrow> detectAlertLevel item = NoLevel)
   \<and> ((\<forall>l. \<forall>k\<in>set (ALERT_KEYWORDS l).
        \<not> sublist k (toLowerCase (newsTitle item @ '' '' @ newsDescription item)))
       \<longrightarrow> detectAlertLevel item = NoLevel)"
proof -
  have A: "detectAlertLevel item = NoLevel"
    if "\<forall>k\<in>set (highAlertKeywords @ mediumAlertKeywords @ lowAlertKeywords).
          \<not> sublist k (alertText item)"
    using that by (simp add: detectAlertLevel_def anyKeyword_iff ball_Un)
  have B: "detectAlertLevel item = NoLevel"
    if h: "\<forall>k\<in>set (highAlertKeywords @ mediumAlertKeywords @ lowAlertKeywords).
          \<not> sublist k (toLowerCase (newsTitle item @ '' '' @ newsDescription item))"
  proof (rule A, rule ballI)
    fix k assume k: "k \<in> set (highAlertKeywords @ mediumAlertKeywords @ lowAlertKeywords)"
    show "\<not> sublist k (alertText item)"
    proof
      assume "sublist k (alertText item)"
      then have "sublist k (toLowerCase (newsTitle item @ '' '' @ newsDescription item))"
        using alertText_sublist[of item] by (rule sublist_order.order_trans)
      with h k show False by blast
    qed
  qed
  have C: "detectAlertLevel item = NoLevel"
    if h: "\<forall>l. \<forall>k\<in>set (ALERT_KEYWORDS l).
          \<not> sublist k (toLowerCase (newsTitle item @ '' '' @ newsDescription item))"
  proof (rule B, rule ballI)
    fix k assume "k \<in> set (highAlertKeywords @ mediumAlertKeywords @ lowAlertKeywords)"
    with alert_lists_in_table
    have "k \<in> set (ALERT_KEYWORDS Critical) \<union> set (ALERT_KEYWORDS Medium) \<union> set (ALERT_KEYWORDS Low)"
      by blast
    with h show "\<not> sublist k (toLowerCase (newsTitle item @ '' '' @ newsDescription item))"
      by blast
  qed
  from A B C show ?thesis by blast
qed

theorem C3_no_match_none_witness:
  "\<not> anyKeyword (toLowerCase (newsTitle exRssCalm @ '' '' @ newsDescription exRssCalm))
        (ALERT_KEYWORDS Critical @ ALERT_KEYWORDS High @ ALERT_KEYWORDS Medium
           @ ALERT_KEYWORDS Low @ ALERT_KEYWORDS NoLevel)
   \<and> detectAlertLevel exRssCalm = NoLevel"
proof -
  have n: "\<not> anyKeyword (toLowerCase (newsTitle exRssCalm @ '' '' @ newsDescription exRssCalm))
        (ALERT_KEYWORDS Critical @ ALERT_KEYWORDS High @ ALERT_KEYWORDS Medium
           @ ALERT_KEYWORDS Low @ ALERT_KEYWORDS NoLevel)"
    by (simp add: exRssCalm_def newsTitle_def newsDescription_def lower_eval)
  have "\<forall>l. \<forall>k\<in>set (ALERT_KEYWORDS l).
        \<not> sublist k (toLowerCase (newsTitle exRssCalm @ '' '' @ newsDescription exRssCalm))"
  proof (intro allI ballI)
    fix l k assume "k \<in> set (ALERT_KEYWORDS l)"
    then have "k \<in> set (ALERT_KEYWORDS Critical @ ALERT_KEYWORDS High @ ALERT_KEYWORDS Medium
           @ ALERT_KEYWORDS Low @ ALERT_KEYWORDS NoLevel)"
      by (cases l) (auto simp del: ALERT_KEYWORDS.simps)
    with n show "\<not> sublist k (toLowerCase (newsTitle exRssCalm @ '' '' @ newsDescription exRssCalm))"
      unfolding anyKeyword_iff by blast
  qed
  with C3_no_match_none[of exRssCalm] have "detectAlertLevel exRssCalm = NoLevel" by blast
  with n show ?thesis by simp
qed

section \<open>Classification and its input\<close>

text \<open>
  Whenever the category is not yet among the keywords of an item, \<open>enhanceKeywords\<close>
  changes the array that the item itself holds.
\<close>

lemma push_read: "a < length st \<Longrightarrow> push st a v ! a = st ! a @ [v]"
  by (simp add: push_def)

lemma enhanceKeywords_input:
  assumes "news_keywords item < length st" "category item \<notin> set (st ! news_keywords item)"
  shows "snd (enhanceKeywords st item) ! news_keywords item \<noteq> st ! news_keywords item"
proof -
  let ?a = "news_keywords item"
  let ?st1 = "push st ?a (category item)"
  have l1: "?a < length ?st1" using assms by (simp add: push_def)
  have r1: "?st1 ! ?a = st ! ?a @ [category item]" using assms by (simp add: push_read)
  show ?thesis
  proof (cases "region item")
    case None
    then show ?thesis using assms r1
      by (simp add: enhanceKeywords_def Let_def nth_append l1)
  next
    case (Some r)
    show ?thesis
    proof (cases "r \<noteq> [] \<and> r \<notin> set (?st1 ! ?a)")
      case True
      have "push ?st1 ?a r ! ?a = st ! ?a @ [category item, r]"
        using l1 r1 by (simp add: push_read)
      then show ?thesis using assms Some True l1
        by (simp add: enhanceKeywords_def Let_def nth_append push_def)
    next
      case False
      then show ?thesis using assms Some r1 l1
        by (auto simp: enhanceKeywords_def Let_def nth_append)
    qed
  qed
qed

text \<open>
  Claim C6 fails on the code. \<open>processNewsItems\<close> returns copies, and the array of
  keywords of each copy is a new one, but \<open>enhanceKeywords\<close> pushes the category and the
  region onto the array of the input item before it copies: after the call the input
  item's \<open>keywords\<close>, empty before, holds \<open>tech\<close> and \<open>asia\<close>.
\<close>

theorem C6_input_keywords_mutated:
  "[[]] ! news_keywords exRaw = []
   \<and> snd (processNewsItems [[]] [exRaw]) ! news_keywords exRaw = [''tech'', ''asia'']
   \<and> map news_keywords (fst (processNewsItems [[]] [exRaw])) = [1]
   \<and> snd (processNewsItems [[]] [exRaw]) ! 1 = [''tech'', ''asia'']
   \<and> map title (fst (processNewsItems [[]] [exRaw])) = [''Chip launch'']"
  by (simp add: exRaw_def enhanceKeywords_def push_def Let_def cleanText_def trim_def
        collapseSpaces_def isSpace_def)

section \<open>The overall confidence\<close>

lemma calculateConfidence_unfold:
  "length ps + length ts + length rs + length opps \<noteq> 0 \<Longrightarrow>
   calculateConfidence ps ts rs opps =
     min 100 (round (fmul (fdiv
        (fadd (fadd (fadd (fmul (of_nat (length ps)) (fl (3 / 10)))
                          (fmul (of_nat (length ts)) (fl (4 / 10))))
                    (fmul (of_nat (length rs)) (fl (2 / 10))))
              (fmul (of_nat (length opps)) (fl (1 / 10))))
        (fmul (of_nat (length ps + length ts + length rs + length opps)) (fl (4 / 10)))) 100))"
  by (auto simp: calculateConfidence_def Let_def)

text \<open>
  The divisor \<open>maxPossible\<close> is positive whenever there is a finding, so the division of
  \<open>calculateConfidence\<close> is one of finite numbers.
\<close>

lemma calculateConfidence_divisor:
  "length ps + length ts + length rs + length opps \<noteq> 0 \<Longrightarrow>
   0 < fmul (of_nat (length ps + length ts + length rs + length opps)) (fl (4 / 10))"
  using quotient_close(1)[of "length ps" "length ts" "length rs" "length opps"] by simp

theorem C9_confidence_counterexample:
  "calculateConfidence [()] [()] ([] :: unit list) ([] :: unit list) = 87
   \<and> specConfidence 1 1 0 0 = 88"
  by code_simp

text \<open>
  Claim C9, amended. The overall confidence is an integer between 0 and 100; it is 0
  when all four lists are empty; otherwise it is \<open>min(100, Math.round(q))\<close> where \<open>q\<close>
  is computed in binary64 in the order of the code, each product, sum and quotient
  rounded: the weighted total of the four lengths with the weights 0.3, 0.4, 0.2, 0.1,
  divided by 0.4 times the total, times 100. It differs from the value of the formula in
  exact arithmetic by at most 1.
\<close>

theorem C9_confidence:
  "0 \<le> calculateConfidence ps ts rs opps
   \<and> calculateConfidence ps ts rs opps \<le> 100
   \<and> (ps = [] \<and> ts = [] \<and> rs = [] \<and> opps = [] \<longrightarrow> calculateConfidence ps ts rs opps = 0)
   \<and> (length ps + length ts + length rs + length opps \<noteq> 0 \<longrightarrow>
        calculateConfidence ps ts rs opps =
          min 100 (round (fmul (fdiv
            (fadd (fadd (fadd (fmul (of_nat (length ps)) (fl (3 / 10)))
                              (fmul (of_nat (length ts)) (fl (4 / 10))))
                        (fmul (of_nat (length rs)) (fl (2 / 10))))
                  (fmul (of_nat (length opps)) (fl (1 / 10))))
            (fmul (of_nat (length ps + length ts + length rs + length opps)) (fl (4 / 10))))
            100)))
   \<and> \<bar>calculateConfidence ps ts rs opps
        - specConfidence (length ps) (length ts) (length rs) (length opps)\<bar> \<le> 1"
proof (cases "length ps + length ts + length rs + length opps = 0")
  case True
  then show ?thesis by (simp add: calculateConfidence_def specConfidence_def)
next
  case False
  let ?wt = "fadd (fadd (fadd (fmul (of_nat (length ps)) (fl (3 / 10)))
                              (fmul (of_nat (length ts)) (fl (4 / 10))))
                        (fmul (of_nat (length rs)) (fl (2 / 10))))
                  (fmul (of_nat (length opps)) (fl (1 / 10)))"
  let ?mp = "fmul (of_nat (length ps + length ts + length rs + length opps)) (fl (4 / 10))"
  let ?q = "fmul (fdiv ?wt ?mp) 100"
  let ?Q = "100 * (3 / 10 * of_nat (length ps) + 4 / 10 * of_nat (length ts)
                   + 2 / 10 * of_nat (length rs) + 1 / 10 * (of_nat (length opps) :: rat))
            / (4 / 10 * (of_nat (length ps + length ts + length rs + length opps) :: rat))"
  have c: "calculateConfidence ps ts rs opps = min 100 (round ?q)"
    using False by (rule calculateConfidence_unfold)
  have sp: "specConfidence (length ps) (length ts) (length rs) (length opps) = min 100 (round ?Q)"
    using False by (simp add: specConfidence_def)
  have pos: "0 < length ps + length ts + length rs + length opps" using False by simp
  have close: "\<bar>?q - ?Q\<bar> \<le> 1 / 2"
    using quotient_close(2)[OF pos] by simp
  have q0: "0 \<le> ?q"
    unfolding fmul_def by (rule fl_nonneg) (simp add: fdiv_def fadd_def fmul_def fl_nonneg)
  then have r0: "0 \<le> round ?q" by (simp add: round_def)
  have 1: "0 \<le> calculateConfidence ps ts rs opps" unfolding c using r0 by simp
  have 2: "calculateConfidence ps ts rs opps \<le> 100" unfolding c by simp
  have 3: "ps = [] \<and> ts = [] \<and> rs = [] \<and> opps = [] \<longrightarrow> calculateConfidence ps ts rs opps = 0"
    using False by auto
  from round_close[OF close] have "\<bar>min 100 (round ?q) - min 100 (round ?Q)\<bar> \<le> 1"
    by linarith
  then have 5: "\<bar>calculateConfidence ps ts rs opps
        - specConfidence (length ps) (length ts) (length rs) (length opps)\<bar> \<le> 1"
    by (simp only: c sp)
  from 1 2 3 c 5 show ?thesis by blast
qed

theorem C9_confidence_witness:
  "calculateConfidence [()] [()] ([] :: unit list) ([] :: unit list) = 87
   \<and> calculateConfidence ([] :: unit list) ([] :: unit list) ([] :: unit list) ([] :: unit list) = 0
   \<and> \<bar>calculateConfidence [()] [()] ([] :: unit list) ([] :: unit list) - specConfidence 1 1 0 0\<bar> \<le> 1"
proof -
  have e: "min 100 (round (fmul (fdiv
            (fadd (fadd (fadd (fmul (of_nat (length [()])) (fl (3 / 10)))
                              (fmul (of_nat (length [()])) (fl (4 / 10))))
                        (fmul (of_nat (length ([] :: unit list))) (fl (2 / 10))))
                  (fmul (of_nat (length ([] :: unit list))) (fl (1 / 10))))
            (fmul (of_nat (length [()] + length [()] + length ([] :: unit list)
                            + length ([] :: unit list))) (fl (4 / 10))))
            100)) = (87 :: int)"
    by code_simp
  have h: "length [()] + length [()] + length ([] :: unit list) + length ([] :: unit list) \<noteq> 0"
    by simp
  note t = C9_confidence[of "[()]" "[()]" "[] :: unit list" "[] :: unit list"]
  from t have b: "\<bar>calculateConfidence [()] [()] ([] :: unit list) ([] :: unit list)
             - specConfidence (length [()]) (length [()]) (length ([] :: unit list))
                 (length ([] :: unit list))\<bar> \<le> 1"
    by blast
  from t h have "calculateConfidence [()] [()] ([] :: unit list) ([] :: unit list)
      = min 100 (round (fmul (fdiv
            (fadd (fadd (fadd (fmul (of_nat (length [()])) (fl (3 / 10)))
                              (fmul (of_nat (length [()])) (fl (4 / 10))))
                        (fmul (of_nat (length ([] :: unit list))) (fl (2 / 10))))
                  (fmul (of_nat (length ([] :: unit list))) (fl (1 / 10))))
            (fmul (of_nat (length [()] + length [()] + length ([] :: unit list)
                            + length ([] :: unit list))) (fl (4 / 10))))
            100))"
    by blast
  from this e have a: "calculateConfidence [()] [()] ([] :: unit list) ([] :: unit list) = 87"
    by (rule trans)
  from C9_confidence[of "[] :: unit list" "[] :: unit list" "[] :: unit list" "[] :: unit list"]
  have z: "calculateConfidence ([] :: unit list) ([] :: unit list) ([] :: unit list)
             ([] :: unit list) = 0"
    by blast
  from a b z show ?thesis by simp
qed

section \<open>Two runs of the analysis\<close>











section \<open>Symmetry of the correlation matrix\<close>

lemma window_commute: "window a b = window b a"
  by (simp add: window_def Int_commute)

lemma pearson_swap: "pearson (map (\<lambda>(x, y). (y, x)) ps) = pearson ps"
  by (simp add: pearson_def Let_def comp_def case_prod_unfold mult.commute)

lemma correlation_commute: "correlation a b = correlation b a"
proof -
  have "map (\<lambda>t. (valueAt b t, valueAt a t)) (window b a)
        = map (\<lambda>(x, y). (y, x)) (map (\<lambda>t. (valueAt a t, valueAt b t)) (window a b))"
    by (simp add: window_commute[of b a])
  then show ?thesis
    unfolding correlation_def by (simp only: pearson_swap)
qed

lemma correlations_cell:
  assumes "i < length (assets (analyzeCorrelations minSamples returns requested))"
    and "j < length (assets (analyzeCorrelations minSamples returns requested))"
  shows "correlations (analyzeCorrelations minSamples returns requested) ! i ! j =
     (if i = j then 1
      else correlation
             (returns (assets (analyzeCorrelations minSamples returns requested) ! i))
             (returns (assets (analyzeCorrelations minSamples returns requested) ! j)))"
  using assms by (simp add: analyzeCorrelations_def Let_def)

text \<open>
  Claim C7. The matrix is square over the assets kept, those with at least the minimum
  number of samples; for every two of them the cell \<open>correlations[i][j]\<close> equals the
  cell \<open>correlations[j][i]\<close>, and every diagonal cell is \<open>1\<close>.
\<close>

theorem C7_symmetric_unit_diagonal:
  assumes "i < length (assets (analyzeCorrelations minSamples returns requested))"
    and "j < length (assets (analyzeCorrelations minSamples returns requested))"
  shows "length (correlations (analyzeCorrelations minSamples returns requested))
           = length (assets (analyzeCorrelations minSamples returns requested))
     \<and> length (correlations (analyzeCorrelations minSamples returns requested) ! i)
           = length (assets (analyzeCorrelations minSamples returns requested))
     \<and> correlations (analyzeCorrelations minSamples returns requested) ! i ! j
           = correlations (analyzeCorrelations minSamples returns requested) ! j ! i
     \<and> correlations (analyzeCorrelations minSamples returns requested) ! i ! i = 1"
proof -
  have sq: "length (correlations (analyzeCorrelations minSamples returns requested))
           = length (assets (analyzeCorrelations minSamples returns requested))"
    "length (correlations (analyzeCorrelations minSamples returns requested) ! i)
           = length (assets (analyzeCorrelations minSamples returns requested))"
    using assms by (simp_all add: analyzeCorrelations_def Let_def)
  have sym: "correlations (analyzeCorrelations minSamples returns requested) ! i ! j
           = correlations (analyzeCorrelations minSamples returns requested) ! j ! i"
    using assms correlation_commute by (simp add: correlations_cell)
  have diag: "correlations (analyzeCorrelations minSamples returns requested) ! i ! i = 1"
    using assms by (simp add: correlations_cell)
  from sq sym diag show ?thesis by simp
qed

theorem C7_symmetric_unit_diagonal_witness:
  "assets (analyzeCorrelations 3 exReturns [''BTC'', ''DOGE'', ''ETH'']) = [''BTC'', ''ETH'']
   \<and> correlations (analyzeCorrelations 3 exReturns [''BTC'', ''DOGE'', ''ETH'']) ! 0 ! 1
       = correlations (analyzeCorrelations 3 exReturns [''BTC'', ''DOGE'', ''ETH'']) ! 1 ! 0
   \<and> correlations (analyzeCorrelations 3 exReturns [''BTC'', ''DOGE'', ''ETH'']) ! 0 ! 0 = 1"
proof -
  have a: "assets (analyzeCorrelations 3 exReturns [''BTC'', ''DOGE'', ''ETH'']) = [''BTC'', ''ETH'']"
    by (simp add: analyzeCorrelations_def includedAssets_def exReturns_def Let_def)
  then have h: "0 < length (assets (analyzeCorrelations 3 exReturns [''BTC'', ''DOGE'', ''ETH'']))"
    "1 < length (assets (analyzeCorrelations 3 exReturns [''BTC'', ''DOGE'', ''ETH'']))"
    by simp_all
  from C7_symmetric_unit_diagonal[OF h(1) h(2)] a show ?thesis by simp
qed

end
